theory Spec2Isabelle
  imports Complex_Main "HOL-Library.Signed_Division"
begin

section \<open>2D heat equation with halo exchange\<close>

text \<open>
  The program is \<^verbatim>\<open>labs/topic1_heat/solutions/exercise2_nomanaged.cpp\<close>.
\<close>

text \<open>
  The embedding follows the source function by function and keeps its names.
  \<^item> \<^verbatim>\<open>long\<close> and \<^verbatim>\<open>int\<close> values are mathematical integers: the values the program
    handles (grid extents, offsets into a buffer that was allocated) are far from the
    bounds of a 64-bit integer, and signed overflow has no defined result in C++.
    The operators \<^verbatim>\<open>/\<close> and \<^verbatim>\<open>%\<close> of C++ truncate towards zero: they are \<open>sdiv\<close> and
    \<open>smod\<close>.
  \<^item> \<^verbatim>\<open>double\<close> values are real numbers with exact arithmetic; rounding is not
    modelled. Every expression keeps the shape it has in the source.
  \<^item> A buffer (\<^verbatim>\<open>double*\<close> into a \<^verbatim>\<open>std::vector<double>\<close>) is a list of reals; an
    access at an offset outside the list is undefined behaviour in C++ and is the
    failure \<open>OutOfBounds\<close> here.
  \<^item> \<^verbatim>\<open>assert\<close> is the macro of \<^verbatim>\<open><cassert>\<close>: it aborts the process when its
    condition is false, unless the translation unit is compiled with \<^verbatim>\<open>NDEBUG\<close>
    defined, in which case it expands to nothing. The source does not define
    \<^verbatim>\<open>NDEBUG\<close>; whether the build does is the parameter \<open>ndebug\<close> of every function
    that reaches an \<^verbatim>\<open>assert\<close>.
  \<^item> Every abnormal end of the process is a value \<open>Inl f\<close> of the result type
    \<open>failure + 'a\<close>.
\<close>

subsection \<open>Failures\<close>

datatype exception = invalid_argument | out_of_range | length_error

datatype failure =
    AssertionFailed
  | OutOfBounds
  | InvalidRange
  | Terminated "string list"
  | Uncaught exception
  | TransportError

text \<open>
  \<open>Terminated out\<close>: \<^verbatim>\<open>std::terminate()\<close> was called after the lines \<open>out\<close> were written
  to \<^verbatim>\<open>std::cerr\<close>. \<open>Uncaught e\<close>: the exception \<open>e\<close> left \<^verbatim>\<open>main\<close>, which ends the process
  through \<^verbatim>\<open>std::terminate()\<close> as well; the program itself has written nothing.
  \<open>InvalidRange\<close>: \<^verbatim>\<open>views::iota(0, n)\<close> with \<open>n < 0\<close>, whose bound cannot be reached.
\<close>

definition bnd :: "failure + 'a \<Rightarrow> ('a \<Rightarrow> failure + 'b) \<Rightarrow> failure + 'b" where
  "bnd m f = (case m of Inl e \<Rightarrow> Inl e | Inr v \<Rightarrow> f v)"

subsection \<open>Problem parameters\<close>

record parameters =
  dx :: real
  dt :: real
  nx :: int
  ny :: int
  ni :: int
  rank :: int
  nranks :: int

definition alpha :: real where
  "alpha = 1"

definition nit :: "parameters \<Rightarrow> int" where
  "nit p = ni p"

definition nout :: "parameters \<Rightarrow> int" where
  "nout p = 1000"

definition nx_global :: "parameters \<Rightarrow> int" where
  "nx_global p = nx p * nranks p"

definition ny_global :: "parameters \<Rightarrow> int" where
  "ny_global p = ny p"

definition gamma :: "parameters \<Rightarrow> real" where
  "gamma p = alpha * dt p / (dx p * dx p)"

text \<open>
  \<^verbatim>\<open>std::stoll\<close> is the standard library's: it skips leading white space, reads an
  optional sign and the longest run of decimal digits, ignores what follows, throws
  \<^verbatim>\<open>std::invalid_argument\<close> when there is no digit to convert and \<^verbatim>\<open>std::out_of_range\<close>
  when the value does not fit a \<^verbatim>\<open>long long\<close>.
\<close>

definition isspace :: "char \<Rightarrow> bool" where
  "isspace c = (c = CHR '' '' \<or> c = CHR 0x09 \<or> c = CHR 0x0A \<or> c = CHR 0x0B
                \<or> c = CHR 0x0C \<or> c = CHR 0x0D)"

definition digit_value :: "char \<Rightarrow> int option" where
  "digit_value c = map_of (zip ''0123456789'' [0, 1, 2, 3, 4, 5, 6, 7, 8, 9]) c"

definition isdigit :: "char \<Rightarrow> bool" where
  "isdigit c = (digit_value c \<noteq> None)"

definition stoll :: "string \<Rightarrow> exception + int" where
  "stoll str =
     (let s = dropWhile isspace str;
          signed = (s \<noteq> [] \<and> (hd s = CHR ''-'' \<or> hd s = CHR ''+''));
          negative = (s \<noteq> [] \<and> hd s = CHR ''-'');
          digits = takeWhile isdigit (if signed then tl s else s);
          magnitude = foldl (\<lambda>a c. 10 * a + the (digit_value c)) 0 digits;
          v = (if negative then - magnitude else magnitude)
      in if digits = [] then Inl invalid_argument
         else if v < - (2 ^ 63) \<or> 2 ^ 63 - 1 < v then Inl out_of_range
         else Inr v)"

definition throwing :: "exception + 'a \<Rightarrow> failure + 'a" where
  "throwing r = (case r of Inl e \<Rightarrow> Inl (Uncaught e) | Inr v \<Rightarrow> Inr v)"

text \<open>
  The constructor \<^verbatim>\<open>parameters(int argc, char *argv[])\<close>; \<open>argc\<close> is the length of
  \<open>argv\<close>. The usage line starts with \<^verbatim>\<open>argv[0]\<close>. For \<open>nx = 0\<close> the quotient
  \<^verbatim>\<open>1.0 / nx\<close> is an infinity in C++ and \<open>0\<close> here; no property below depends on \<open>dx\<close>
  in that case.
\<close>

definition usage :: "string list \<Rightarrow> string list" where
  "usage argv =
     [''ERROR: incorrect arguments'',
      ''  '' @ (case argv of [] \<Rightarrow> [] | a # _ \<Rightarrow> a) @ '' <nx> <ny> <ni>'']"

definition parameters_of_args :: "string list \<Rightarrow> failure + parameters" where
  "parameters_of_args argv =
     (if int (length argv) \<noteq> 4 then Inl (Terminated (usage argv))
      else
        bnd (throwing (stoll (argv ! 1))) (\<lambda>nx'.
        bnd (throwing (stoll (argv ! 2))) (\<lambda>ny'.
        bnd (throwing (stoll (argv ! 3))) (\<lambda>ni'.
          let dx' = 1 / real_of_int nx' in
          Inr \<lparr>dx = dx', dt = dx' * dx' / (5 * alpha),
               nx = nx', ny = ny', ni = ni', rank = 0, nranks = 1\<rparr>))))"

subsection \<open>Grid addressing\<close>

text \<open>
  \<^verbatim>\<open>long index(long x, long y, parameters p)\<close>: two assertions, then the row-major
  offset. With \<open>ndebug\<close> the assertions are not compiled.
\<close>

definition index :: "bool \<Rightarrow> int \<Rightarrow> int \<Rightarrow> parameters \<Rightarrow> failure + int" where
  "index ndebug x y p =
     (if \<not> ndebug \<and> \<not> (x \<ge> 0 \<and> x < nx p) then Inl AssertionFailed
      else if \<not> ndebug \<and> \<not> (y \<ge> 0 \<and> y < ny p) then Inl AssertionFailed
      else Inr (x * ny p + y))"

subsection \<open>Buffers\<close>

definition load :: "real list \<Rightarrow> int \<Rightarrow> failure + real" where
  "load u i = (if 0 \<le> i \<and> i < int (length u) then Inr (u ! nat i) else Inl OutOfBounds)"

definition store :: "real list \<Rightarrow> int \<Rightarrow> real \<Rightarrow> failure + real list" where
  "store u i v = (if 0 \<le> i \<and> i < int (length u) then Inr (u[nat i := v]) else Inl OutOfBounds)"

text \<open>\<open>u[idx(x, y)]\<close> read, and \<open>u[idx(x, y)] = v\<close>.\<close>

definition load_at :: "bool \<Rightarrow> parameters \<Rightarrow> real list \<Rightarrow> int \<Rightarrow> int \<Rightarrow> failure + real" where
  "load_at ndebug p u x y = bnd (index ndebug x y p) (load u)"

definition store_at ::
  "bool \<Rightarrow> parameters \<Rightarrow> real list \<Rightarrow> int \<Rightarrow> int \<Rightarrow> real \<Rightarrow> failure + real list" where
  "store_at ndebug p u x y v = bnd (index ndebug x y p) (\<lambda>i. store u i v)"

subsection \<open>The finite-difference stencil at one cell\<close>

text \<open>
  The four conditional stores that open \<^verbatim>\<open>stencil(double*, double*, long, long, parameters)\<close>
  (``Apply boundary conditions''), in the order of the source. The result is the
  buffer \<open>u_old\<close> after them.
\<close>

definition boundary_conditions ::
  "bool \<Rightarrow> real list \<Rightarrow> int \<Rightarrow> int \<Rightarrow> parameters \<Rightarrow> failure + real list" where
  "boundary_conditions ndebug u_old x y p =
     bnd (if y = 1 then store_at ndebug p u_old x (y - 1) 0 else Inr u_old) (\<lambda>u1.
     bnd (if y = ny p - 2 then store_at ndebug p u1 x (y + 1) 0 else Inr u1) (\<lambda>u2.
     bnd (if rank p = 0 \<and> x = 1 then store_at ndebug p u2 (x - 1) y 1 else Inr u2) (\<lambda>u3.
     (if rank p = nranks p - 1 \<and> x = nx p then store_at ndebug p u3 (x + 1) y 0
      else Inr u3))))"

text \<open>
  The kernel returns the two buffers as it leaves them and the value it returns in
  the source. The operands of the update are read from left to right, then the cell
  of \<open>u_new\<close> is written, then read twice for the returned value.
\<close>

definition stencil ::
  "bool \<Rightarrow> real list \<Rightarrow> real list \<Rightarrow> int \<Rightarrow> int \<Rightarrow> parameters
     \<Rightarrow> failure + (real list \<times> real list \<times> real)" where
  "stencil ndebug u_new u_old x y p =
     bnd (boundary_conditions ndebug u_old x y p) (\<lambda>u.
     bnd (load_at ndebug p u x y) (\<lambda>c.
     bnd (load_at ndebug p u (x + 1) y) (\<lambda>e.
     bnd (load_at ndebug p u (x - 1) y) (\<lambda>w.
     bnd (load_at ndebug p u x (y + 1)) (\<lambda>n.
     bnd (load_at ndebug p u x (y - 1)) (\<lambda>s.
     bnd (store_at ndebug p u_new x y
            ((1 - 4 * gamma p) * c + gamma p * (e + w + n + s))) (\<lambda>u'.
     bnd (load_at ndebug p u' x y) (\<lambda>v1.
     bnd (load_at ndebug p u' x y) (\<lambda>v2.
       Inr (u', u, 0.5 * v1 * v2 * dx p * dx p))))))))))"

subsection \<open>The stencil over a grid region\<close>

record grid =
  x_start :: int
  x_end :: int
  y_start :: int
  y_end :: int

text \<open>The lambda \<^verbatim>\<open>split\<close>, with its captures \<open>x_start\<close>, \<open>y_start\<close> and \<open>dy\<close> as arguments.\<close>

definition split_flat :: "int \<Rightarrow> int \<Rightarrow> int \<Rightarrow> int \<Rightarrow> int \<times> int" where
  "split_flat xs ys dy i = (i sdiv dy + xs, i smod dy + ys)"

text \<open>
  Modelled from the spec: the inverse map that the specification names \<open>combine\<close>,
  \<open>(x, y) \<mapsto> (x - x_start) * dy + (y - y_start)\<close>. It is not in the source; it is
  written from the specification's words, to be compared with \<open>split_flat\<close>.
\<close>

definition combine :: "int \<Rightarrow> int \<Rightarrow> int \<Rightarrow> int \<times> int \<Rightarrow> int" where
  "combine xs ys dy c = (fst c - xs) * dy + (snd c - ys)"

datatype event =
    Send int int "real list"
  | Recv int int "real list"
  | Kernel int int

text \<open>
  The observable steps of a process, in the order they happen: \<open>Send dest tag row\<close> and
  \<open>Recv source tag row\<close> are the blocking transfers, \<open>Kernel x y\<close> is one call of the
  kernel at the cell \<open>(x, y)\<close>.

  \<^verbatim>\<open>std::transform_reduce\<close> calls the kernel once for each index of \<open>[0, n)\<close> and adds
  the results to the initial value \<open>0\<close>. The parallel policy fixes no order; the model
  takes the indices in increasing order.
\<close>

fun transform_reduce ::
  "bool \<Rightarrow> parameters \<Rightarrow> (int \<Rightarrow> int \<times> int) \<Rightarrow> int list
     \<Rightarrow> real list \<times> real list \<times> real \<times> event list
     \<Rightarrow> failure + (real list \<times> real list \<times> real \<times> event list)" where
  "transform_reduce ndebug p f [] st = Inr st"
| "transform_reduce ndebug p f (i # is) (u_new, u_old, acc, tr) =
     bnd (stencil ndebug u_new u_old (fst (f i)) (snd (f i)) p) (\<lambda>(u_new', u_old', e).
       transform_reduce ndebug p f is
         (u_new', u_old', acc + e, tr @ [Kernel (fst (f i)) (snd (f i))]))"

definition stencil_grid ::
  "bool \<Rightarrow> real list \<Rightarrow> real list \<Rightarrow> grid \<Rightarrow> parameters
     \<Rightarrow> failure + (real list \<times> real list \<times> real \<times> event list)" where
  "stencil_grid ndebug u_new u_old g p =
     (let dx' = x_end g - x_start g;
          dy = y_end g - y_start g;
          n = dx' * dy
      in if n < 0 then Inl InvalidRange
         else transform_reduce ndebug p (split_flat (x_start g) (y_start g) dy)
                (map int [0..<nat n]) (u_new, u_old, 0, []))"

subsection \<open>Halo exchange and the three regions\<close>

text \<open>
  \<^verbatim>\<open>MPI_Send(u + off, count, MPI_DOUBLE, ...)\<close> reads \<open>count\<close> cells from offset \<open>off\<close>;
  \<^verbatim>\<open>MPI_Recv(u + off, count, MPI_DOUBLE, ...)\<close> writes the incoming row \<open>msg\<close>, of at
  most \<open>count\<close> cells, from offset \<open>off\<close>. Both block until they are done. An invalid
  count or a row that is too long is an error of the transport, which is fatal.
\<close>

definition send_buffer :: "real list \<Rightarrow> int \<Rightarrow> int \<Rightarrow> failure + real list" where
  "send_buffer u off count =
     (if count < 0 then Inl TransportError
      else if 0 \<le> off \<and> off + count \<le> int (length u)
      then Inr (take (nat count) (drop (nat off) u))
      else Inl OutOfBounds)"

definition recv_buffer :: "real list \<Rightarrow> int \<Rightarrow> int \<Rightarrow> real list \<Rightarrow> failure + real list" where
  "recv_buffer u off count msg =
     (if count < 0 \<or> count < int (length msg) then Inl TransportError
      else if 0 \<le> off \<and> off + int (length msg) \<le> int (length u)
      then Inr (take (nat off) u @ msg @ drop (nat off + length msg) u)
      else Inl OutOfBounds)"

definition internal ::
  "bool \<Rightarrow> real list \<Rightarrow> real list \<Rightarrow> parameters
     \<Rightarrow> failure + (real list \<times> real list \<times> real \<times> event list)" where
  "internal ndebug u_new u_old p =
     stencil_grid ndebug u_new u_old
       \<lparr>x_start = 2, x_end = nx p, y_start = 1, y_end = ny p - 1\<rparr> p"

text \<open>
  \<open>msg\<close> is the row that the neighbour of rank \<open>rank p - 1\<close> sends with tag 1 in this
  iteration; it is read only when \<open>rank p > 0\<close>.
\<close>

definition prev_boundary ::
  "bool \<Rightarrow> real list \<Rightarrow> real list \<Rightarrow> real list \<Rightarrow> parameters
     \<Rightarrow> failure + (real list \<times> real list \<times> real \<times> event list)" where
  "prev_boundary ndebug msg u_new u_old p =
     bnd (if rank p > 0 then
            bnd (send_buffer u_old (ny p) (ny p)) (\<lambda>row.
            bnd (recv_buffer u_old 0 (ny p) msg) (\<lambda>u.
              Inr (u, [Send (rank p - 1) 0 row, Recv (rank p - 1) 1 msg])))
          else Inr (u_old, [])) (\<lambda>(u, tr).
     bnd (stencil_grid ndebug u_new u
            \<lparr>x_start = nx p, x_end = nx p + 1, y_start = 1, y_end = ny p - 1\<rparr> p)
         (\<lambda>(u_new', u_old', e, ks). Inr (u_new', u_old', e, tr @ ks)))"

text \<open>
  \<open>msg\<close> is the row that the neighbour of rank \<open>rank p + 1\<close> sends with tag 0 in this
  iteration; it is read only when \<open>rank p < nranks p - 1\<close>.
\<close>

definition next_boundary ::
  "bool \<Rightarrow> real list \<Rightarrow> real list \<Rightarrow> real list \<Rightarrow> parameters
     \<Rightarrow> failure + (real list \<times> real list \<times> real \<times> event list)" where
  "next_boundary ndebug msg u_new u_old p =
     bnd (if rank p < nranks p - 1 then
            bnd (recv_buffer u_old ((nx p + 1) * ny p) (ny p) msg) (\<lambda>u.
            bnd (send_buffer u (nx p * ny p) (ny p)) (\<lambda>row.
              Inr (u, [Recv (rank p + 1) 0 msg, Send (rank p + 1) 1 row])))
          else Inr (u_old, [])) (\<lambda>(u, tr).
     bnd (stencil_grid ndebug u_new u
            \<lparr>x_start = 1, x_end = 2, y_start = 1, y_end = ny p - 1\<rparr> p)
         (\<lambda>(u_new', u_old', e, ks). Inr (u_new', u_old', e, tr @ ks)))"

subsection \<open>Initialisation\<close>

text \<open>\<^verbatim>\<open>std::fill_n(policy, u, n, v)\<close> assigns \<open>v\<close> to the first \<open>n\<close> cells when \<open>n > 0\<close>.\<close>

definition fill_n :: "real list \<Rightarrow> int \<Rightarrow> real \<Rightarrow> failure + real list" where
  "fill_n u n v =
     (if n \<le> 0 then Inr u
      else if n \<le> int (length u) then Inr (replicate (nat n) v @ drop (nat n) u)
      else Inl OutOfBounds)"

definition initialize ::
  "real list \<Rightarrow> real list \<Rightarrow> int \<Rightarrow> failure + (real list \<times> real list)" where
  "initialize u_new u_old n =
     bnd (fill_n u_new n 0) (\<lambda>u1.
     bnd (fill_n u1 n 0) (\<lambda>u2.
       Inr (u2, u_old)))"

subsection \<open>The time loop and the output\<close>

text \<open>
  One pass through the body of the time loop: the two boundary functions, the
  interior, and the exchange of the two pointers (\<^verbatim>\<open>std::swap(u_new, u_old)\<close>), so the
  pair returned is \<open>(u_new, u_old)\<close> as the next pass finds them. \<open>halo\<close> are the rows
  the two neighbours send in this pass. The reduction of the energy over the ranks
  and the status line only report; the local energy is returned in their place.
\<close>

definition time_step ::
  "bool \<Rightarrow> real list \<times> real list \<Rightarrow> real list \<Rightarrow> real list \<Rightarrow> parameters
     \<Rightarrow> failure + (real list \<times> real list \<times> real \<times> event list)" where
  "time_step ndebug halo u_new u_old p =
     bnd (prev_boundary ndebug (fst halo) u_new u_old p) (\<lambda>(un1, uo1, e1, t1).
     bnd (next_boundary ndebug (snd halo) un1 uo1 p) (\<lambda>(un2, uo2, e2, t2).
     bnd (internal ndebug un2 uo2 p) (\<lambda>(un3, uo3, e3, t3).
       Inr (uo3, un3, 0 + e1 + e2 + e3, t1 @ t2 @ t3))))"

function time_loop ::
  "bool \<Rightarrow> (int \<Rightarrow> real list \<times> real list) \<Rightarrow> parameters \<Rightarrow> int
     \<Rightarrow> real list \<times> real list \<times> real list \<times> event list
     \<Rightarrow> failure + (real list \<times> real list \<times> real list \<times> event list)" where
  "time_loop ndebug halo p it (u_new, u_old, energies, tr) =
     (if it < nit p then
        bnd (time_step ndebug (halo it) u_new u_old p) (\<lambda>(u_new', u_old', e, t).
          time_loop ndebug halo p (it + 1) (u_new', u_old', energies @ [e], tr @ t))
      else Inr (u_new, u_old, energies, tr))"
  by pat_completeness auto
termination
  by (relation "measure (\<lambda>(ndebug, halo, p, it, st). nat (nit p - it))") auto

declare time_loop.simps [simp del]

text \<open>
  What \<^verbatim>\<open>MPI_Init_thread\<close>, \<^verbatim>\<open>MPI_Comm_size\<close> and \<^verbatim>\<open>MPI_Comm_rank\<close> give the process.
\<close>

record world =
  thread_multiple :: bool
  comm_size :: int
  comm_rank :: int

text \<open>
  The state of the process when \<^verbatim>\<open>main\<close> returns: the header it wrote (rank 0 only:
  the two global extents and the final time), the byte offset and the values of the
  block it wrote, the two buffers as \<open>u_new\<close> and \<open>u_old\<close> point to them after the loop,
  the local energy of each pass and the steps taken. \<^verbatim>\<open>sizeof(long)\<close> and
  \<^verbatim>\<open>sizeof(double)\<close> are 8. The timing report, the size of the file and the wait for
  the write requests are left out.
\<close>

record result =
  file_header :: "(int \<times> int \<times> real) option"
  file_offset :: int
  file_values :: "real list"
  last_u_new :: "real list"
  last_u_old :: "real list"
  local_energy :: "real list"
  steps :: "event list"

definition allocate :: "int \<Rightarrow> failure + real list" where
  "allocate n = (if n < 0 then Inl (Uncaught length_error) else Inr (replicate (nat n) 0))"

text \<open>
  The end of \<^verbatim>\<open>main\<close> (``Write output to file''), from the state the time loop leaves.
\<close>

definition write_output ::
  "parameters \<Rightarrow> real list \<times> real list \<times> real list \<times> event list \<Rightarrow> failure + result" where
  "write_output p st =
     (case st of (u_new, u_old, es, tr) \<Rightarrow>
        let header_bytes = 2 * 8 + 8;
            values_per_rank = nx p * ny p;
            values_bytes_per_rank = values_per_rank * 8
        in
        bnd (send_buffer u_new (ny p) values_per_rank) (\<lambda>block.
          Inr \<lparr>file_header =
                 (if rank p = 0 then Some (nx p * nranks p, ny p, real_of_int (nit p) * dt p)
                  else None),
               file_offset = header_bytes + rank p * values_bytes_per_rank,
               file_values = block,
               last_u_new = u_new, last_u_old = u_old,
               local_energy = es, steps = tr\<rparr>))"

definition main ::
  "bool \<Rightarrow> world \<Rightarrow> (int \<Rightarrow> real list \<times> real list) \<Rightarrow> string list \<Rightarrow> failure + result" where
  "main ndebug w halo argv =
     bnd (parameters_of_args argv) (\<lambda>p0.
     if \<not> thread_multiple w
     then Inl (Terminated [''MPI cannot be called from multiple host threads''])
     else
       let p = p0\<lparr>nranks := comm_size w, rank := comm_rank w\<rparr>;
           n = (nx p + 2) * ny p
       in
       bnd (allocate n) (\<lambda>u_new_v.
       bnd (allocate n) (\<lambda>u_old_v.
       bnd (initialize u_new_v u_old_v n) (\<lambda>(u_new0, u_old0).
       bnd (time_loop ndebug halo p 0 (u_new0, u_old0, [], [])) (write_output p)))))"

subsection \<open>Accesses that succeed\<close>

text \<open>
  The access \<open>u[idx(x, y)]\<close> succeeds when the assertions of \<open>index\<close> pass, or are not
  compiled, and the offset lies in the buffer \<open>u\<close>.
\<close>

definition accessible :: "bool \<Rightarrow> parameters \<Rightarrow> real list \<Rightarrow> int \<Rightarrow> int \<Rightarrow> bool" where
  "accessible ndebug p u x y =
     ((ndebug \<or> (0 \<le> x \<and> x < nx p \<and> 0 \<le> y \<and> y < ny p)) \<and>
      0 \<le> x * ny p + y \<and> x * ny p + y < int (length u))"

subsection \<open>Kinds of steps\<close>

text \<open>
  A step of the two boundary functions is a transfer or a kernel call on one of the
  rows \<open>x = nx\<close> and \<open>x = 1\<close>; a step of the interior evaluation is a kernel call at a
  cell of \<open>[2, nx) \<times> [1, ny - 1)\<close>.
\<close>

definition seam_or_exchange :: "parameters \<Rightarrow> event \<Rightarrow> bool" where
  "seam_or_exchange p ev = (case ev of Kernel x y \<Rightarrow> x = nx p \<or> x = 1 | _ \<Rightarrow> True)"

definition interior_kernel :: "parameters \<Rightarrow> event \<Rightarrow> bool" where
  "interior_kernel p ev =
     (case ev of Kernel x y \<Rightarrow> 2 \<le> x \<and> x < nx p \<and> 1 \<le> y \<and> y < ny p - 1 | _ \<Rightarrow> False)"

section \<open>Properties\<close>

subsection \<open>Sequencing of failures\<close>

lemma bnd_Inr [simp]: "bnd (Inr v) f = f v"
  by (simp add: bnd_def)

lemma bnd_Inl [simp]: "bnd (Inl e) f = Inl e"
  by (simp add: bnd_def)

lemma bnd_eq_Inr: "bnd m f = Inr r \<longleftrightarrow> (\<exists>v. m = Inr v \<and> f v = Inr r)"
  by (cases m) simp_all



subsection \<open>Flattening a region\<close>

text \<open>
  On the indices that \<open>transform_reduce\<close> passes, which are not negative, and for a
  positive \<open>dy\<close>, the truncating operators of C++ agree with \<open>div\<close> and \<open>mod\<close>.
\<close>

lemma sdiv_nonneg: "0 \<le> i \<Longrightarrow> 0 < d \<Longrightarrow> (i::int) sdiv d = i div d"
  by (cases "i = 0") (simp_all add: signed_divide_int_def sgn_if)

lemma smod_nonneg: "0 \<le> i \<Longrightarrow> 0 < d \<Longrightarrow> (i::int) smod d = i mod d"
  by (cases "i = 0") (simp_all add: signed_modulo_int_def sgn_if)

lemma split_flat_nonneg:
  "0 \<le> i \<Longrightarrow> 0 < d \<Longrightarrow> split_flat xs ys d i = (i div d + xs, i mod d + ys)"
  by (simp add: split_flat_def sdiv_nonneg smod_nonneg)

lemma div_bound:
  assumes "0 < (d::int)" and "i < w * d"
  shows "i div d < w"
proof (rule ccontr)
  assume "\<not> i div d < w"
  then have "w * d \<le> (i div d) * d"
    using assms(1) by (simp add: mult_right_mono)
  moreover have "(i div d) * d + i mod d = i"
    by simp
  moreover have "0 \<le> i mod d"
    using assms(1) by simp
  ultimately show False
    using assms(2) by linarith
qed

lemma combine_bound:
  assumes "0 \<le> (a::int)" "a < w" "0 \<le> b" "b < d"
  shows "0 \<le> a * d + b \<and> a * d + b < w * d"
proof -
  have "a * d + b < a * d + d" using assms by simp
  also have "\<dots> = (a + 1) * d" by (simp add: algebra_simps)
  also have "\<dots> \<le> w * d" using assms by (intro mult_right_mono) auto
  finally show ?thesis using assms by simp
qed

text \<open>
  C7. For a region with \<open>dy = y_end - y_start > 0\<close> and \<open>dx = x_end - x_start > 0\<close>, the
  map \<open>split\<close> of the region evaluator sends every flat index of \<open>[0, dx * dy)\<close> to a
  coordinate of \<open>[x_start, x_end) \<times> [y_start, y_end)\<close>, \<open>combine\<close> sends every coordinate of
  the region to a flat index of \<open>[0, dx * dy)\<close>, and each undoes the other.
\<close>

theorem split_combine_inverse:
  assumes "0 < y_end g - y_start g" and "0 < x_end g - x_start g"
  shows "(\<forall>i. 0 \<le> i \<and> i < (x_end g - x_start g) * (y_end g - y_start g) \<longrightarrow>
            x_start g \<le> fst (split_flat (x_start g) (y_start g) (y_end g - y_start g) i) \<and>
            fst (split_flat (x_start g) (y_start g) (y_end g - y_start g) i) < x_end g \<and>
            y_start g \<le> snd (split_flat (x_start g) (y_start g) (y_end g - y_start g) i) \<and>
            snd (split_flat (x_start g) (y_start g) (y_end g - y_start g) i) < y_end g \<and>
            combine (x_start g) (y_start g) (y_end g - y_start g)
              (split_flat (x_start g) (y_start g) (y_end g - y_start g) i) = i) \<and>
         (\<forall>x y. x_start g \<le> x \<and> x < x_end g \<and> y_start g \<le> y \<and> y < y_end g \<longrightarrow>
            0 \<le> combine (x_start g) (y_start g) (y_end g - y_start g) (x, y) \<and>
            combine (x_start g) (y_start g) (y_end g - y_start g) (x, y)
              < (x_end g - x_start g) * (y_end g - y_start g) \<and>
            split_flat (x_start g) (y_start g) (y_end g - y_start g)
              (combine (x_start g) (y_start g) (y_end g - y_start g) (x, y)) = (x, y))"
proof (intro conjI allI impI)
  fix i :: int
  assume i: "0 \<le> i \<and> i < (x_end g - x_start g) * (y_end g - y_start g)"
  let ?d = "y_end g - y_start g"
  have s: "split_flat (x_start g) (y_start g) ?d i = (i div ?d + x_start g, i mod ?d + y_start g)"
    using i assms by (simp add: split_flat_nonneg)
  have "0 \<le> i div ?d" using i assms by (simp add: pos_imp_zdiv_nonneg_iff)
  then show "x_start g \<le> fst (split_flat (x_start g) (y_start g) ?d i)" by (simp add: s)
  have "i div ?d < x_end g - x_start g" using i assms by (intro div_bound) auto
  then show "fst (split_flat (x_start g) (y_start g) ?d i) < x_end g" by (simp add: s)
  show "y_start g \<le> snd (split_flat (x_start g) (y_start g) ?d i)" using assms by (simp add: s)
  have "i mod ?d < ?d" using assms by simp
  then show "snd (split_flat (x_start g) (y_start g) ?d i) < y_end g" by (simp add: s)
  show "combine (x_start g) (y_start g) ?d (split_flat (x_start g) (y_start g) ?d i) = i"
    using div_mult_mod_eq[of i ?d] by (simp add: s combine_def)
next
  fix x y :: int
  assume r: "x_start g \<le> x \<and> x < x_end g \<and> y_start g \<le> y \<and> y < y_end g"
  let ?d = "y_end g - y_start g"
  let ?c = "combine (x_start g) (y_start g) ?d (x, y)"
  have c: "?c = (x - x_start g) * ?d + (y - y_start g)" by (simp add: combine_def)
  have b: "0 \<le> ?c \<and> ?c < (x_end g - x_start g) * ?d"
    unfolding c using r by (intro combine_bound) auto
  show "0 \<le> ?c" using b by simp
  show "?c < (x_end g - x_start g) * ?d" using b by simp
  have "split_flat (x_start g) (y_start g) ?d ?c = (?c div ?d + x_start g, ?c mod ?d + y_start g)"
    using b assms by (simp add: split_flat_nonneg)
  moreover have "?c div ?d = x - x_start g" unfolding c using r assms by simp
  moreover have "?c mod ?d = y - y_start g" unfolding c using r assms by simp
  ultimately show "split_flat (x_start g) (y_start g) ?d ?c = (x, y)" by simp
qed

theorem split_combine_inverse_witness:
  "combine 2 1 4 (split_flat 2 1 4 5) = 5 \<and> split_flat 2 1 4 (combine 2 1 4 (3, 2)) = (3, 2)"
proof -
  let ?g = "\<lparr>x_start = 2, x_end = 4, y_start = 1, y_end = 5\<rparr>"
  have t: "(\<forall>i. 0 \<le> i \<and> i < 8 \<longrightarrow>
              2 \<le> fst (split_flat 2 1 4 i) \<and> fst (split_flat 2 1 4 i) < 4 \<and>
              1 \<le> snd (split_flat 2 1 4 i) \<and> snd (split_flat 2 1 4 i) < 5 \<and>
              combine 2 1 4 (split_flat 2 1 4 i) = i) \<and>
           (\<forall>x y. 2 \<le> x \<and> x < 4 \<and> 1 \<le> y \<and> y < 5 \<longrightarrow>
              0 \<le> combine 2 1 4 (x, y) \<and> combine 2 1 4 (x, y) < 8 \<and>
              split_flat 2 1 4 (combine 2 1 4 (x, y)) = (x, y))"
    using split_combine_inverse [of ?g] by simp
  from t have "combine 2 1 4 (split_flat 2 1 4 5) = 5"
    by simp
  moreover from t have "split_flat 2 1 4 (combine 2 1 4 (3, 2)) = (3, 2)"
    by simp
  ultimately show ?thesis
    by simp
qed

subsection \<open>The kernel at one cell\<close>

lemma load_at_accessible:
  "accessible ndebug p u x y \<Longrightarrow> load_at ndebug p u x y = Inr (u ! nat (x * ny p + y))"
  by (auto simp: accessible_def load_at_def index_def load_def)

lemma store_at_accessible:
  "accessible ndebug p u x y \<Longrightarrow> store_at ndebug p u x y v = Inr (u[nat (x * ny p + y) := v])"
  by (auto simp: accessible_def store_at_def index_def store_def)

lemma accessible_length:
  "length u' = length u \<Longrightarrow> accessible ndebug p u' x y = accessible ndebug p u x y"
  by (simp add: accessible_def)

lemma in_buffer:
  assumes "0 \<le> x" "x \<le> nx p + 1" "0 \<le> y" "y < ny p"
    and "length u = nat ((nx p + 2) * ny p)"
  shows "0 \<le> x * ny p + y \<and> x * ny p + y < int (length u)"
proof -
  have "0 \<le> x * ny p + y \<and> x * ny p + y < (nx p + 2) * ny p"
    using assms by (intro combine_bound) auto
  then show ?thesis using assms(5) by auto
qed

lemma accessible_region:
  assumes "0 \<le> x" "x \<le> nx p + 1" "0 \<le> y" "y < ny p"
    and "length u = nat ((nx p + 2) * ny p)" and "ndebug \<or> x < nx p"
  shows "accessible ndebug p u x y"
  using in_buffer [OF assms(1-5)] assms by (auto simp: accessible_def)

lemma store_at_length:
  "store_at ndebug p u x y v = Inr u' \<Longrightarrow> length u' = length u"
  by (auto simp: store_at_def store_def index_def bnd_eq_Inr split: if_splits)

lemma boundary_conditions_length:
  "boundary_conditions ndebug u x y p = Inr u' \<Longrightarrow> length u' = length u"
  by (auto simp: boundary_conditions_def bnd_eq_Inr split: if_splits dest!: store_at_length)

lemma accessible_nat: "accessible ndebug p u x y \<Longrightarrow> nat (x * ny p + y) < length u"
  unfolding accessible_def by linarith

lemma conditional_store:
  assumes "accessible ndebug p u x y"
  shows "\<exists>u'. (if c then store_at ndebug p u x y v else Inr u) = Inr u' \<and> length u' = length u"
  using assms by (simp add: store_at_accessible)

lemma boundary_conditions_total:
  assumes "1 \<le> x" "x \<le> nx p" "1 \<le> y" "y \<le> ny p - 2"
    and "length u = nat ((nx p + 2) * ny p)" and "ndebug \<or> x + 1 < nx p"
  shows "\<exists>u'. boundary_conditions ndebug u x y p = Inr u'"
proof -
  have a: "\<And>u'. length u' = length u \<Longrightarrow> accessible ndebug p u' x (y - 1)"
       "\<And>u'. length u' = length u \<Longrightarrow> accessible ndebug p u' x (y + 1)"
       "\<And>u'. length u' = length u \<Longrightarrow> accessible ndebug p u' (x - 1) y"
       "\<And>u'. length u' = length u \<Longrightarrow> accessible ndebug p u' (x + 1) y"
    using assms by (auto intro!: accessible_region)
  obtain u1 where u1:
    "(if y = 1 then store_at ndebug p u x (y - 1) 0 else Inr u) = Inr u1" "length u1 = length u"
    using conditional_store [OF a(1)] by blast
  obtain u2 where u2:
    "(if y = ny p - 2 then store_at ndebug p u1 x (y + 1) 0 else Inr u1) = Inr u2"
    "length u2 = length u"
    using conditional_store [OF a(2) [OF u1(2)]] u1(2) by metis
  obtain u3 where u3:
    "(if rank p = 0 \<and> x = 1 then store_at ndebug p u2 (x - 1) y 1 else Inr u2) = Inr u3"
    "length u3 = length u"
    using conditional_store [OF a(3) [OF u2(2)]] u2(2) by metis
  obtain u4 where u4:
    "(if rank p = nranks p - 1 \<and> x = nx p then store_at ndebug p u3 (x + 1) y 0 else Inr u3)
       = Inr u4"
    using conditional_store [OF a(4) [OF u3(2)]] by metis
  show ?thesis
    unfolding boundary_conditions_def by (simp only: u1 u2 u3 u4 bnd_Inr) blast
qed

lemma stencil_value:
  assumes "1 \<le> x" "x \<le> nx p" "1 \<le> y" "y \<le> ny p - 2"
    and "length u_new = nat ((nx p + 2) * ny p)"
    and "length u_old = nat ((nx p + 2) * ny p)"
    and "ndebug \<or> x + 1 < nx p"
  shows "\<exists>u v. boundary_conditions ndebug u_old x y p = Inr u \<and>
           v = (1 - 4 * gamma p) * u ! nat (x * ny p + y)
               + gamma p * (u ! nat ((x + 1) * ny p + y) + u ! nat ((x - 1) * ny p + y)
                            + u ! nat (x * ny p + (y + 1)) + u ! nat (x * ny p + (y - 1))) \<and>
           stencil ndebug u_new u_old x y p
             = Inr (u_new[nat (x * ny p + y) := v], u, 0.5 * v\<^sup>2 * (dx p)\<^sup>2) \<and>
           u_new[nat (x * ny p + y) := v] ! nat (x * ny p + y) = v"
proof -
  obtain u where u: "boundary_conditions ndebug u_old x y p = Inr u"
    using boundary_conditions_total [OF assms(1-4) assms(6) assms(7)] by blast
  have len: "length u = nat ((nx p + 2) * ny p)"
    using boundary_conditions_length [OF u] assms(6) by simp
  have c: "accessible ndebug p u x y" "accessible ndebug p u (x + 1) y"
          "accessible ndebug p u (x - 1) y" "accessible ndebug p u x (y + 1)"
          "accessible ndebug p u x (y - 1)"
    using assms len by (auto intro!: accessible_region)
  have n: "accessible ndebug p u_new x y"
    using assms by (auto intro!: accessible_region)
  then have k: "nat (x * ny p + y) < length u_new"
    by (rule accessible_nat)
  define v where "v = (1 - 4 * gamma p) * u ! nat (x * ny p + y)
               + gamma p * (u ! nat ((x + 1) * ny p + y) + u ! nat ((x - 1) * ny p + y)
                            + u ! nat (x * ny p + (y + 1)) + u ! nat (x * ny p + (y - 1)))"
  have n': "accessible ndebug p (u_new[nat (x * ny p + y) := v]) x y"
    using n by (simp add: accessible_def)
  have "stencil ndebug u_new u_old x y p
          = bnd (store_at ndebug p u_new x y v) (\<lambda>u'.
            bnd (load_at ndebug p u' x y) (\<lambda>v1.
            bnd (load_at ndebug p u' x y) (\<lambda>v2.
              Inr (u', u, 0.5 * v1 * v2 * dx p * dx p))))"
    unfolding stencil_def by (simp add: u load_at_accessible c v_def)
  also have "\<dots> = Inr (u_new[nat (x * ny p + y) := v], u, 0.5 * v\<^sup>2 * (dx p)\<^sup>2)"
    using k by (simp add: store_at_accessible n load_at_accessible n' power2_eq_square)
  finally have "stencil ndebug u_new u_old x y p
          = Inr (u_new[nat (x * ny p + y) := v], u, 0.5 * v\<^sup>2 * (dx p)\<^sup>2)" .
  then show ?thesis
    using u k v_def by auto
qed

subsection \<open>The kernel over a region\<close>

lemma stencil_length:
  assumes "stencil ndebug u_new u_old x y p = Inr (u_new', u_old', e)"
  shows "length u_new' = length u_new \<and> length u_old' = length u_old"
  using assms unfolding stencil_def
  by (auto simp: bnd_eq_Inr dest!: store_at_length boundary_conditions_length)

lemma transform_reduce_steps:
  "transform_reduce ndebug p f is (u_new, u_old, acc, tr) = Inr (u_new', u_old', acc', tr') \<Longrightarrow>
     tr' = tr @ map (\<lambda>i. Kernel (fst (f i)) (snd (f i))) is \<and>
     length u_new' = length u_new \<and> length u_old' = length u_old"
proof (induction "is" arbitrary: u_new u_old acc tr)
  case Nil
  then show ?case by simp
next
  case (Cons i "is")
  from Cons.prems obtain un uo e where
    s: "stencil ndebug u_new u_old (fst (f i)) (snd (f i)) p = Inr (un, uo, e)" and
    r: "transform_reduce ndebug p f is (un, uo, acc + e, tr @ [Kernel (fst (f i)) (snd (f i))])
          = Inr (u_new', u_old', acc', tr')"
    by (auto simp: bnd_eq_Inr)
  from Cons.IH [OF r] stencil_length [OF s] show ?case by simp
qed

lemma transform_reduce_total:
  assumes "\<forall>i \<in> set is. 1 \<le> fst (f i) \<and> fst (f i) \<le> nx p \<and> 1 \<le> snd (f i) \<and> snd (f i) \<le> ny p - 2
              \<and> (ndebug \<or> fst (f i) + 1 < nx p)"
    and "length u_new = nat ((nx p + 2) * ny p)"
    and "length u_old = nat ((nx p + 2) * ny p)"
  shows "\<exists>r. transform_reduce ndebug p f is (u_new, u_old, acc, tr) = Inr r"
  using assms
proof (induction "is" arbitrary: u_new u_old acc tr)
  case Nil
  then show ?case by simp
next
  case (Cons i "is")
  have c: "1 \<le> fst (f i)" "fst (f i) \<le> nx p" "1 \<le> snd (f i)" "snd (f i) \<le> ny p - 2"
    "ndebug \<or> fst (f i) + 1 < nx p"
    using Cons.prems(1) by auto
  obtain un uo e where
    s: "stencil ndebug u_new u_old (fst (f i)) (snd (f i)) p = Inr (un, uo, e)"
    using stencil_value [OF c(1-4) Cons.prems(2,3) c(5)] by blast
  have l: "length un = nat ((nx p + 2) * ny p)" "length uo = nat ((nx p + 2) * ny p)"
    using stencil_length [OF s] Cons.prems by auto
  have "\<forall>i \<in> set is. 1 \<le> fst (f i) \<and> fst (f i) \<le> nx p \<and> 1 \<le> snd (f i) \<and> snd (f i) \<le> ny p - 2
              \<and> (ndebug \<or> fst (f i) + 1 < nx p)"
    using Cons.prems(1) by simp
  from Cons.IH [OF this l] show ?case
    by (simp add: s)
qed

text \<open>The cells of a region, in the order of their flat indices.\<close>

lemma split_flat_in_region:
  assumes "0 < dy" "0 \<le> i" "i < w * dy"
  shows "xs \<le> fst (split_flat xs ys dy i)" "fst (split_flat xs ys dy i) < xs + w"
        "ys \<le> snd (split_flat xs ys dy i)" "snd (split_flat xs ys dy i) < ys + dy"
proof -
  have s: "split_flat xs ys dy i = (i div dy + xs, i mod dy + ys)"
    using assms by (simp add: split_flat_nonneg)
  have "0 \<le> i div dy" using assms by (simp add: pos_imp_zdiv_nonneg_iff)
  moreover have "i div dy < w" using assms by (intro div_bound) auto
  moreover have "0 \<le> i mod dy" "i mod dy < dy" using assms by simp_all
  ultimately show "xs \<le> fst (split_flat xs ys dy i)" "fst (split_flat xs ys dy i) < xs + w"
        "ys \<le> snd (split_flat xs ys dy i)" "snd (split_flat xs ys dy i) < ys + dy"
    by (simp_all add: s)
qed

lemma stencil_grid_steps:
  assumes "stencil_grid ndebug u_new u_old g p = Inr (u_new', u_old', e, tr)"
  shows "tr = map (\<lambda>k. Kernel (fst (split_flat (x_start g) (y_start g) (y_end g - y_start g) (int k)))
                             (snd (split_flat (x_start g) (y_start g) (y_end g - y_start g) (int k))))
                [0..<nat ((x_end g - x_start g) * (y_end g - y_start g))]"
    and "length u_new' = length u_new" and "length u_old' = length u_old"
    and "0 \<le> (x_end g - x_start g) * (y_end g - y_start g)"
proof -
  let ?n = "(x_end g - x_start g) * (y_end g - y_start g)"
  let ?f = "split_flat (x_start g) (y_start g) (y_end g - y_start g)"
  show n: "0 \<le> ?n"
    using assms unfolding stencil_grid_def Let_def by (auto split: if_splits)
  then have "transform_reduce ndebug p ?f (map int [0..<nat ?n]) (u_new, u_old, 0, [])
               = Inr (u_new', u_old', e, tr)"
    using assms unfolding stencil_grid_def Let_def by simp
  from transform_reduce_steps [OF this]
  show "tr = map (\<lambda>k. Kernel (fst (?f (int k))) (snd (?f (int k)))) [0..<nat ?n]"
    and "length u_new' = length u_new" and "length u_old' = length u_old"
    by (simp_all add: comp_def)
qed

lemma stencil_grid_total:
  assumes "1 \<le> x_start g" "x_start g \<le> x_end g" "x_end g \<le> nx p + 1"
    and "1 \<le> y_start g" "y_start g \<le> y_end g" "y_end g \<le> ny p - 1"
    and "length u_new = nat ((nx p + 2) * ny p)"
    and "length u_old = nat ((nx p + 2) * ny p)"
    and "ndebug \<or> x_end g < nx p"
  shows "\<exists>r. stencil_grid ndebug u_new u_old g p = Inr r"
proof -
  let ?dy = "y_end g - y_start g"
  let ?w = "x_end g - x_start g"
  let ?f = "split_flat (x_start g) (y_start g) ?dy"
  have n: "0 \<le> ?w * ?dy" using assms by simp
  have "\<forall>i \<in> set (map int [0..<nat (?w * ?dy)]).
          1 \<le> fst (?f i) \<and> fst (?f i) \<le> nx p \<and> 1 \<le> snd (?f i) \<and> snd (?f i) \<le> ny p - 2
              \<and> (ndebug \<or> fst (?f i) + 1 < nx p)"
  proof
    fix i assume "i \<in> set (map int [0..<nat (?w * ?dy)])"
    then have i: "0 \<le> i" "i < ?w * ?dy" by auto
    have dy: "0 < ?dy"
    proof (rule ccontr)
      assume "\<not> 0 < ?dy"
      then have "?dy = 0" using assms by simp
      then show False using i by simp
    qed
    from split_flat_in_region [OF dy i, where xs = "x_start g" and ys = "y_start g"] assms
    show "1 \<le> fst (?f i) \<and> fst (?f i) \<le> nx p \<and> 1 \<le> snd (?f i) \<and> snd (?f i) \<le> ny p - 2
              \<and> (ndebug \<or> fst (?f i) + 1 < nx p)"
      by auto
  qed
  from transform_reduce_total [OF this assms(7,8)] n show ?thesis
    unfolding stencil_grid_def Let_def by simp
qed

subsection \<open>The steps of one pass of the time loop\<close>

lemma row_cells:
  "map (\<lambda>k. Kernel (fst (split_flat a 1 d (int k))) (snd (split_flat a 1 d (int k))))
       [0..<nat ((a + 1 - a) * d)]
     = map (\<lambda>k. Kernel a (int k + 1)) [0..<nat d]"
proof -
  have "split_flat a 1 d (int k) = (a, int k + 1)" if "k < nat d" for k
  proof -
    from that have "0 \<le> int k" "int k < d" "0 < d" by auto
    then show ?thesis by (simp add: split_flat_nonneg)
  qed
  then show ?thesis by simp
qed

lemma prev_boundary_steps:
  assumes "prev_boundary ndebug msg u_new u_old p = Inr (u_new', u_old', e, tr)"
  shows "tr = (if rank p > 0
               then [Send (rank p - 1) 0 (take (nat (ny p)) (drop (nat (ny p)) u_old)),
                     Recv (rank p - 1) 1 msg]
               else [])
              @ map (\<lambda>k. Kernel (nx p) (int k + 1)) [0..<nat (ny p - 2)]"
proof -
  from assms obtain u t ks where
    x: "(if rank p > 0 then
            bnd (send_buffer u_old (ny p) (ny p)) (\<lambda>row.
            bnd (recv_buffer u_old 0 (ny p) msg) (\<lambda>u.
              Inr (u, [Send (rank p - 1) 0 row, Recv (rank p - 1) 1 msg])))
          else Inr (u_old, [])) = Inr (u, t)" and
    g: "stencil_grid ndebug u_new u
            \<lparr>x_start = nx p, x_end = nx p + 1, y_start = 1, y_end = ny p - 1\<rparr> p
          = Inr (u_new', u_old', e, ks)" and
    tr: "tr = t @ ks"
    unfolding prev_boundary_def by (auto simp: bnd_eq_Inr)
  have "t = (if rank p > 0
               then [Send (rank p - 1) 0 (take (nat (ny p)) (drop (nat (ny p)) u_old)),
                     Recv (rank p - 1) 1 msg]
               else [])"
    using x by (auto simp: bnd_eq_Inr send_buffer_def split: if_splits)
  moreover have "ks = map (\<lambda>k. Kernel (nx p) (int k + 1)) [0..<nat (ny p - 2)]"
    using stencil_grid_steps(1) [OF g] row_cells [of "nx p" "ny p - 1 - 1"] by simp
  ultimately show ?thesis using tr by simp
qed

lemma next_boundary_steps:
  assumes "next_boundary ndebug msg u_new u_old p = Inr (u_new', u_old', e, tr)"
  shows "\<exists>row. tr = (if rank p < nranks p - 1
               then [Recv (rank p + 1) 0 msg, Send (rank p + 1) 1 row]
               else [])
              @ map (\<lambda>k. Kernel 1 (int k + 1)) [0..<nat (ny p - 2)]"
proof -
  from assms obtain u t ks where
    x: "(if rank p < nranks p - 1 then
            bnd (recv_buffer u_old ((nx p + 1) * ny p) (ny p) msg) (\<lambda>u.
            bnd (send_buffer u (nx p * ny p) (ny p)) (\<lambda>row.
              Inr (u, [Recv (rank p + 1) 0 msg, Send (rank p + 1) 1 row])))
          else Inr (u_old, [])) = Inr (u, t)" and
    g: "stencil_grid ndebug u_new u
            \<lparr>x_start = 1, x_end = 2, y_start = 1, y_end = ny p - 1\<rparr> p
          = Inr (u_new', u_old', e, ks)" and
    tr: "tr = t @ ks"
    unfolding next_boundary_def by (auto simp: bnd_eq_Inr)
  have "\<exists>row. t = (if rank p < nranks p - 1
               then [Recv (rank p + 1) 0 msg, Send (rank p + 1) 1 row]
               else [])"
    using x by (auto simp: bnd_eq_Inr split: if_splits)
  moreover have "ks = map (\<lambda>k. Kernel 1 (int k + 1)) [0..<nat (ny p - 2)]"
    using stencil_grid_steps(1) [OF g] row_cells [of 1 "ny p - 1 - 1"] by simp
  ultimately show ?thesis using tr by auto
qed

lemma internal_steps:
  assumes "internal ndebug u_new u_old p = Inr (u_new', u_old', e, tr)"
    and "2 \<le> ny p" and "ev \<in> set tr"
  shows "\<exists>x y. ev = Kernel x y \<and> 2 \<le> x \<and> x < nx p \<and> 1 \<le> y \<and> y < ny p - 1"
proof -
  let ?g = "\<lparr>x_start = 2, x_end = nx p, y_start = 1, y_end = ny p - 1\<rparr>"
  let ?d = "ny p - 1 - 1"
  let ?w = "nx p - 2"
  have g: "stencil_grid ndebug u_new u_old ?g p = Inr (u_new', u_old', e, tr)"
    using assms(1) by (simp add: internal_def)
  have n: "0 \<le> ?w * ?d"
    using stencil_grid_steps(4) [OF g] by simp
  from stencil_grid_steps(1) [OF g] assms(3) obtain k where
    k: "k < nat (?w * ?d)" and
    ev: "ev = Kernel (fst (split_flat 2 1 ?d (int k))) (snd (split_flat 2 1 ?d (int k)))"
    by auto
  have d: "0 < ?d"
  proof (rule ccontr)
    assume "\<not> 0 < ?d"
    then have "?d = 0" using assms(2) by simp
    then show False using k by simp
  qed
  have i: "0 \<le> int k" "int k < ?w * ?d"
    using k by auto
  from split_flat_in_region [OF d i, where xs = 2 and ys = 1] ev show ?thesis
    by auto
qed

lemma prev_boundary_ny:
  assumes "prev_boundary ndebug msg u_new u_old p = Inr r"
  shows "2 \<le> ny p"
proof -
  obtain a b c d where r: "r = (a, b, c, d)" by (cases r) auto
  from assms obtain u ks where
    "stencil_grid ndebug u_new u
            \<lparr>x_start = nx p, x_end = nx p + 1, y_start = 1, y_end = ny p - 1\<rparr> p
          = Inr (a, b, c, ks)"
    unfolding prev_boundary_def r by (auto simp: bnd_eq_Inr)
  from stencil_grid_steps(4) [OF this] show ?thesis by simp
qed

text \<open>
  In a build without assertions a pass returns whenever the extents are at least 2,
  the buffers have \<open>(nx + 2) * ny\<close> cells and the incoming rows have at most \<open>ny\<close> cells.
\<close>

lemma buffer_size:
  assumes "0 \<le> nx p" "0 \<le> ny p"
  shows "int (nat ((nx p + 2) * ny p)) = nx p * ny p + 2 * ny p"
proof -
  have "0 \<le> (nx p + 2) * ny p" using assms by simp
  then show ?thesis by (simp add: algebra_simps)
qed

lemma recv_buffer_returns:
  assumes "0 \<le> off" "int (length msg) \<le> count" "off + int (length msg) \<le> int (length u)"
  shows "\<exists>u'. recv_buffer u off count msg = Inr u' \<and> length u' = length u"
proof -
  have "nat off + length msg \<le> length u"
    using assms by linarith
  then have "length (take (nat off) u @ msg @ drop (nat off + length msg) u) = length u"
    by simp
  moreover have "0 \<le> count" using assms(2) by linarith
  ultimately show ?thesis
    using assms by (simp add: recv_buffer_def)
qed

lemma send_buffer_returns:
  assumes "0 \<le> off" "0 \<le> count" "off + count \<le> int (length u)"
  shows "\<exists>row. send_buffer u off count = Inr row"
  using assms by (simp add: send_buffer_def)

lemma prev_exchange_returns:
  assumes "0 \<le> nx p" "0 \<le> ny p" "length u_old = nat ((nx p + 2) * ny p)"
    and "int (length msg) \<le> ny p"
  shows "\<exists>u t. (if rank p > 0 then
            bnd (send_buffer u_old (ny p) (ny p)) (\<lambda>row.
            bnd (recv_buffer u_old 0 (ny p) msg) (\<lambda>u.
              Inr (u, [Send (rank p - 1) 0 row, Recv (rank p - 1) 1 msg])))
          else Inr (u_old, [])) = Inr (u, t) \<and> length u = length u_old"
proof -
  have n: "int (length u_old) = nx p * ny p + 2 * ny p"
    using buffer_size [OF assms(1,2)] assms(3) by simp
  have "0 \<le> nx p * ny p" using assms by simp
  then have b: "ny p + ny p \<le> int (length u_old)" "0 + int (length msg) \<le> int (length u_old)"
    using n assms by linarith+
  obtain row where s: "send_buffer u_old (ny p) (ny p) = Inr row"
    using send_buffer_returns [OF assms(2) assms(2) b(1)] by blast
  obtain u where r: "recv_buffer u_old 0 (ny p) msg = Inr u" "length u = length u_old"
    using recv_buffer_returns [OF _ assms(4) b(2)] by auto
  show ?thesis
    by (simp add: s r)
qed

lemma next_exchange_returns:
  assumes "0 \<le> nx p" "0 \<le> ny p" "length u_old = nat ((nx p + 2) * ny p)"
    and "int (length msg) \<le> ny p"
  shows "\<exists>u t. (if rank p < nranks p - 1 then
            bnd (recv_buffer u_old ((nx p + 1) * ny p) (ny p) msg) (\<lambda>u.
            bnd (send_buffer u (nx p * ny p) (ny p)) (\<lambda>row.
              Inr (u, [Recv (rank p + 1) 0 msg, Send (rank p + 1) 1 row])))
          else Inr (u_old, [])) = Inr (u, t) \<and> length u = length u_old"
proof -
  have n: "int (length u_old) = nx p * ny p + 2 * ny p"
    using buffer_size [OF assms(1,2)] assms(3) by simp
  have z: "0 \<le> nx p * ny p" using assms by simp
  have e: "(nx p + 1) * ny p = nx p * ny p + ny p" by (simp add: algebra_simps)
  have b: "(nx p + 1) * ny p + int (length msg) \<le> int (length u_old)"
       "0 \<le> (nx p + 1) * ny p" "nx p * ny p + ny p \<le> int (length u_old)"
    unfolding e using n z assms by linarith+
  obtain u where r: "recv_buffer u_old ((nx p + 1) * ny p) (ny p) msg = Inr u"
      "length u = length u_old"
    using recv_buffer_returns [OF b(2) assms(4) b(1)] by auto
  obtain row where s: "send_buffer u (nx p * ny p) (ny p) = Inr row"
    using send_buffer_returns [OF z assms(2), of u] b(3) r(2) by auto
  show ?thesis
    by (simp add: s r)
qed

lemma prev_boundary_returns:
  assumes "1 \<le> nx p" "2 \<le> ny p"
    and "length u_new = nat ((nx p + 2) * ny p)" "length u_old = nat ((nx p + 2) * ny p)"
    and "int (length msg) \<le> ny p"
  shows "\<exists>u_new' u_old' e tr. prev_boundary True msg u_new u_old p = Inr (u_new', u_old', e, tr)
           \<and> length u_new' = length u_new \<and> length u_old' = length u_old"
proof -
  from prev_exchange_returns [OF _ _ assms(4,5)] assms(1,2) obtain u t where
    x: "(if rank p > 0 then
            bnd (send_buffer u_old (ny p) (ny p)) (\<lambda>row.
            bnd (recv_buffer u_old 0 (ny p) msg) (\<lambda>u.
              Inr (u, [Send (rank p - 1) 0 row, Recv (rank p - 1) 1 msg])))
          else Inr (u_old, [])) = Inr (u, t)" and l: "length u = length u_old"
    by force
  let ?g = "\<lparr>x_start = nx p, x_end = nx p + 1, y_start = 1, y_end = ny p - 1\<rparr>"
  have "\<exists>r. stencil_grid True u_new u ?g p = Inr r"
    using assms l by (intro stencil_grid_total) auto
  then obtain a b c d where g: "stencil_grid True u_new u ?g p = Inr (a, b, c, d)"
    by (metis prod_cases4)
  have "prev_boundary True msg u_new u_old p = Inr (a, b, c, t @ d)"
    unfolding prev_boundary_def by (simp only: x bnd_Inr case_prod_conv g)
  then show ?thesis
    using stencil_grid_steps(2,3) [OF g] l by simp
qed

lemma next_boundary_returns:
  assumes "1 \<le> nx p" "2 \<le> ny p"
    and "length u_new = nat ((nx p + 2) * ny p)" "length u_old = nat ((nx p + 2) * ny p)"
    and "int (length msg) \<le> ny p"
  shows "\<exists>u_new' u_old' e tr. next_boundary True msg u_new u_old p = Inr (u_new', u_old', e, tr)
           \<and> length u_new' = length u_new \<and> length u_old' = length u_old"
proof -
  from next_exchange_returns [OF _ _ assms(4,5)] assms(1,2) obtain u t where
    x: "(if rank p < nranks p - 1 then
            bnd (recv_buffer u_old ((nx p + 1) * ny p) (ny p) msg) (\<lambda>u.
            bnd (send_buffer u (nx p * ny p) (ny p)) (\<lambda>row.
              Inr (u, [Recv (rank p + 1) 0 msg, Send (rank p + 1) 1 row])))
          else Inr (u_old, [])) = Inr (u, t)" and l: "length u = length u_old"
    by force
  let ?g = "\<lparr>x_start = 1, x_end = 2, y_start = 1, y_end = ny p - 1\<rparr>"
  have "\<exists>r. stencil_grid True u_new u ?g p = Inr r"
    using assms l by (intro stencil_grid_total) auto
  then obtain a b c d where g: "stencil_grid True u_new u ?g p = Inr (a, b, c, d)"
    by (metis prod_cases4)
  have "next_boundary True msg u_new u_old p = Inr (a, b, c, t @ d)"
    unfolding next_boundary_def by (simp only: x bnd_Inr case_prod_conv g)
  then show ?thesis
    using stencil_grid_steps(2,3) [OF g] l by simp
qed

lemma internal_returns:
  assumes "2 \<le> nx p" "2 \<le> ny p"
    and "length u_new = nat ((nx p + 2) * ny p)" "length u_old = nat ((nx p + 2) * ny p)"
  shows "\<exists>u_new' u_old' e tr. internal True u_new u_old p = Inr (u_new', u_old', e, tr)
           \<and> length u_new' = length u_new \<and> length u_old' = length u_old"
proof -
  let ?g = "\<lparr>x_start = 2, x_end = nx p, y_start = 1, y_end = ny p - 1\<rparr>"
  have "\<exists>r. stencil_grid True u_new u_old ?g p = Inr r"
    using assms by (intro stencil_grid_total) auto
  then obtain a b c d where g: "stencil_grid True u_new u_old ?g p = Inr (a, b, c, d)"
    by (metis prod_cases4)
  then show ?thesis
    using stencil_grid_steps(2,3) [OF g] by (simp add: internal_def)
qed

lemma time_step_returns:
  assumes "2 \<le> nx p" "2 \<le> ny p"
    and "length u_new = nat ((nx p + 2) * ny p)" "length u_old = nat ((nx p + 2) * ny p)"
    and "int (length (fst halo)) \<le> ny p" "int (length (snd halo)) \<le> ny p"
  shows "\<exists>u_new' u_old' e tr. time_step True halo u_new u_old p = Inr (u_new', u_old', e, tr)
           \<and> length u_new' = length u_old \<and> length u_old' = length u_new"
proof -
  from prev_boundary_returns [OF _ assms(2,3,4,5)] assms(1) obtain un1 uo1 e1 t1 where
    a: "prev_boundary True (fst halo) u_new u_old p = Inr (un1, uo1, e1, t1)"
    and la: "length un1 = length u_new" "length uo1 = length u_old"
    by force
  from next_boundary_returns [OF _ assms(2) _ _ assms(6), of un1 uo1] assms(1,3,4) la
  obtain un2 uo2 e2 t2 where
    b: "next_boundary True (snd halo) un1 uo1 p = Inr (un2, uo2, e2, t2)"
    and lb: "length un2 = length un1" "length uo2 = length uo1"
    by force
  from internal_returns [OF assms(1,2), of un2 uo2] assms(3,4) la lb
  obtain un3 uo3 e3 t3 where
    c: "internal True un2 uo2 p = Inr (un3, uo3, e3, t3)"
    and lc: "length un3 = length un2" "length uo3 = length uo2"
    by force
  have "time_step True halo u_new u_old p = Inr (uo3, un3, 0 + e1 + e2 + e3, t1 @ t2 @ t3)"
    unfolding time_step_def by (simp only: a b c bnd_Inr case_prod_conv)
  then show ?thesis
    using la lb lc by simp
qed

text \<open>
  C5. A pass of the time loop that returns has run \<open>prev_boundary\<close>, then
  \<open>next_boundary\<close> on the buffers \<open>prev_boundary\<close> returned, then \<open>internal\<close> on the buffers
  \<open>next_boundary\<close> returned. Its steps are those of the two boundary functions (every
  transfer and every kernel call on a seam row) followed by those of the interior
  evaluation, which are kernel calls at interior cells only: no step of the interior
  evaluation comes before a step of a boundary function.
\<close>

theorem exchanges_before_interior:
  assumes "time_step ndebug halo u_new u_old p = Inr (u_new', u_old', e, tr)"
  shows "\<exists>un1 uo1 e1 t1 un2 uo2 e2 t2 e3 t3.
           prev_boundary ndebug (fst halo) u_new u_old p = Inr (un1, uo1, e1, t1) \<and>
           next_boundary ndebug (snd halo) un1 uo1 p = Inr (un2, uo2, e2, t2) \<and>
           internal ndebug un2 uo2 p = Inr (u_old', u_new', e3, t3) \<and>
           tr = t1 @ t2 @ t3 \<and>
           list_all (seam_or_exchange p) (t1 @ t2) \<and>
           list_all (interior_kernel p) t3"
proof -
  from assms obtain un1 uo1 e1 t1 un2 uo2 e2 t2 e3 t3 where
    a: "prev_boundary ndebug (fst halo) u_new u_old p = Inr (un1, uo1, e1, t1)" and
    b: "next_boundary ndebug (snd halo) un1 uo1 p = Inr (un2, uo2, e2, t2)" and
    c: "internal ndebug un2 uo2 p = Inr (u_old', u_new', e3, t3)" and
    tr: "tr = t1 @ t2 @ t3"
    unfolding time_step_def by (auto simp: bnd_eq_Inr)
  have "list_all (seam_or_exchange p) t1"
    using prev_boundary_steps [OF a] by (auto simp: list_all_iff seam_or_exchange_def)
  moreover have "list_all (seam_or_exchange p) t2"
    using next_boundary_steps [OF b] by (auto simp: list_all_iff seam_or_exchange_def)
  moreover have "list_all (interior_kernel p) t3"
    using internal_steps [OF c prev_boundary_ny [OF a]]
    by (fastforce simp: list_all_iff interior_kernel_def)
  ultimately show ?thesis
    using a b c tr by auto
qed

theorem exchanges_before_interior_witness:
  "\<exists>un1 uo1 e1 t1 un2 uo2 e2 t2 e3 t3.
     prev_boundary True [1, 2, 3] (replicate 15 0) (replicate 15 0)
       \<lparr>dx = 1 / 3, dt = 1 / 45, nx = 3, ny = 3, ni = 1, rank = 1, nranks = 3\<rparr>
       = Inr (un1, uo1, e1, t1) \<and>
     next_boundary True [4, 5, 6] un1 uo1
       \<lparr>dx = 1 / 3, dt = 1 / 45, nx = 3, ny = 3, ni = 1, rank = 1, nranks = 3\<rparr>
       = Inr (un2, uo2, e2, t2) \<and>
     internal True un2 uo2
       \<lparr>dx = 1 / 3, dt = 1 / 45, nx = 3, ny = 3, ni = 1, rank = 1, nranks = 3\<rparr>
       = Inr ([0, 0, 0, 0, 2 / 5, 0, 0, 0, 0, 0, 0, 0, 0, 0, 0],
              [1, 2, 3, 0, 0, 0, 0, 0, 0, 0, 0, 0, 4, 5, 6], e3, t3) \<and>
     [Send 0 0 [0, 0, 0], Recv 0 1 [1, 2, 3], Kernel 3 1,
      Recv 2 0 [4, 5, 6], Send 2 1 [0, 0, 0], Kernel 1 1, Kernel 2 1] = t1 @ t2 @ t3 \<and>
     list_all (seam_or_exchange
       \<lparr>dx = 1 / 3, dt = 1 / 45, nx = 3, ny = 3, ni = 1, rank = 1, nranks = 3\<rparr>) (t1 @ t2) \<and>
     list_all (interior_kernel
       \<lparr>dx = 1 / 3, dt = 1 / 45, nx = 3, ny = 3, ni = 1, rank = 1, nranks = 3\<rparr>) t3"
proof -
  have z: "replicate 15 (0::real) = [0, 0, 0, 0, 0, 0, 0, 0, 0, 0, 0, 0, 0, 0, 0]"
    by (simp add: eval_nat_numeral)
  have "time_step True ([1, 2, 3], [4, 5, 6]) (replicate 15 0) (replicate 15 0)
          \<lparr>dx = 1 / 3, dt = 1 / 45, nx = 3, ny = 3, ni = 1, rank = 1, nranks = 3\<rparr>
        = Inr ([1, 2, 3, 0, 0, 0, 0, 0, 0, 0, 0, 0, 4, 5, 6],
               [0, 0, 0, 0, 2 / 5, 0, 0, 0, 0, 0, 0, 0, 0, 0, 0], 2 / 225,
               [Send 0 0 [0, 0, 0], Recv 0 1 [1, 2, 3], Kernel 3 1,
                Recv 2 0 [4, 5, 6], Send 2 1 [0, 0, 0], Kernel 1 1, Kernel 2 1])"
    by (simp add: z time_step_def prev_boundary_def next_boundary_def internal_def
        stencil_grid_def stencil_def boundary_conditions_def load_at_def store_at_def
        load_def store_def index_def split_flat_def send_buffer_def recv_buffer_def
        gamma_def alpha_def)
  from exchanges_before_interior [OF this] show ?thesis
    by simp
qed

subsection \<open>The boundary stores of the kernel\<close>

lemma conditional_store_eq:
  assumes "accessible ndebug p u x y"
  shows "(if c then store_at ndebug p u x y v else Inr u)
           = Inr (if c then u[nat (x * ny p + y) := v] else u)"
  using assms by (simp add: store_at_accessible)

lemma boundary_conditions_explicit:
  assumes "1 \<le> x" "x \<le> nx p" "1 \<le> y" "y \<le> ny p - 2"
    and "length u = nat ((nx p + 2) * ny p)" and "ndebug \<or> x + 1 < nx p"
  shows "boundary_conditions ndebug u x y p = Inr
     (let u1 = (if y = 1 then u[nat (x * ny p + (y - 1)) := 0] else u);
          u2 = (if y = ny p - 2 then u1[nat (x * ny p + (y + 1)) := 0] else u1);
          u3 = (if rank p = 0 \<and> x = 1 then u2[nat ((x - 1) * ny p + y) := 1] else u2)
      in (if rank p = nranks p - 1 \<and> x = nx p then u3[nat ((x + 1) * ny p + y) := 0] else u3))"
proof -
  have a: "\<And>u'. length u' = length u \<Longrightarrow> accessible ndebug p u' x (y - 1)"
       "\<And>u'. length u' = length u \<Longrightarrow> accessible ndebug p u' x (y + 1)"
       "\<And>u'. length u' = length u \<Longrightarrow> accessible ndebug p u' (x - 1) y"
       "\<And>u'. length u' = length u \<Longrightarrow> accessible ndebug p u' (x + 1) y"
    using assms by (auto intro!: accessible_region)
  define u1 where "u1 = (if y = 1 then u[nat (x * ny p + (y - 1)) := 0] else u)"
  define u2 where "u2 = (if y = ny p - 2 then u1[nat (x * ny p + (y + 1)) := 0] else u1)"
  define u3 where "u3 = (if rank p = 0 \<and> x = 1 then u2[nat ((x - 1) * ny p + y) := 1] else u2)"
  have l: "length u1 = length u" "length u2 = length u" "length u3 = length u"
    by (simp_all add: u1_def u2_def u3_def)
  have s1: "(if y = 1 then store_at ndebug p u x (y - 1) 0 else Inr u) = Inr u1"
    unfolding u1_def by (rule conditional_store_eq) (simp add: a)
  have s2: "(if y = ny p - 2 then store_at ndebug p u1 x (y + 1) 0 else Inr u1) = Inr u2"
    unfolding u2_def by (rule conditional_store_eq) (simp add: a l)
  have s3: "(if rank p = 0 \<and> x = 1 then store_at ndebug p u2 (x - 1) y 1 else Inr u2) = Inr u3"
    unfolding u3_def by (rule conditional_store_eq) (simp add: a l)
  have s4: "(if rank p = nranks p - 1 \<and> x = nx p then store_at ndebug p u3 (x + 1) y 0 else Inr u3)
      = Inr (if rank p = nranks p - 1 \<and> x = nx p then u3[nat ((x + 1) * ny p + y) := 0] else u3)"
    by (rule conditional_store_eq) (simp add: a l)
  show ?thesis
    unfolding boundary_conditions_def Let_def
    by (simp only: s1 s2 s3 s4 bnd_Inr u1_def [symmetric] u2_def [symmetric] u3_def [symmetric])
qed

lemma offsets_distinct:
  assumes "1 \<le> x" "1 \<le> y" "y \<le> h - 2"
  shows "nat (x * h + (y - 1)) \<noteq> nat (x * h + (y + 1))"
    "nat (x * h + (y - 1)) \<noteq> nat ((x - 1) * h + y)"
    "nat (x * h + (y - 1)) \<noteq> nat ((x + 1) * h + y)"
    "nat (x * h + (y + 1)) \<noteq> nat ((x - 1) * h + y)"
    "nat (x * h + (y + 1)) \<noteq> nat ((x + 1) * h + y)"
    "nat ((x - 1) * h + y) \<noteq> nat ((x + 1) * h + y)"
proof -
  have h: "3 \<le> h" using assms by simp
  have "1 * h \<le> x * h"
    using assms h by (intro mult_right_mono) auto
  then have m: "h \<le> x * h" by simp
  have e: "(x - 1) * h = x * h - h" "(x + 1) * h = x * h + h"
    by (simp_all add: algebra_simps)
  have n: "0 \<le> (x - 1) * h + y" "0 \<le> x * h + (y - 1)" "0 \<le> x * h + (y + 1)"
     "0 \<le> (x + 1) * h + y"
    unfolding e using m assms h by linarith+
  have "x * h + (y - 1) \<noteq> x * h + (y + 1)" by simp
  then show "nat (x * h + (y - 1)) \<noteq> nat (x * h + (y + 1))"
    using n by (simp add: eq_nat_nat_iff)
  have "x * h + (y - 1) \<noteq> (x - 1) * h + y" unfolding e using h by linarith
  then show "nat (x * h + (y - 1)) \<noteq> nat ((x - 1) * h + y)"
    using n by (simp add: eq_nat_nat_iff)
  have "x * h + (y - 1) \<noteq> (x + 1) * h + y" unfolding e using h by linarith
  then show "nat (x * h + (y - 1)) \<noteq> nat ((x + 1) * h + y)"
    using n by (simp add: eq_nat_nat_iff)
  have "x * h + (y + 1) \<noteq> (x - 1) * h + y" unfolding e using h by linarith
  then show "nat (x * h + (y + 1)) \<noteq> nat ((x - 1) * h + y)"
    using n by (simp add: eq_nat_nat_iff)
  have "x * h + (y + 1) \<noteq> (x + 1) * h + y" unfolding e using h by linarith
  then show "nat (x * h + (y + 1)) \<noteq> nat ((x + 1) * h + y)"
    using n by (simp add: eq_nat_nat_iff)
  have "(x - 1) * h + y \<noteq> (x + 1) * h + y" unfolding e using h by linarith
  then show "nat ((x - 1) * h + y) \<noteq> nat ((x + 1) * h + y)"
    using n by (simp add: eq_nat_nat_iff)
qed

lemma four_stores:
  fixes u :: "'a list"
  assumes "k1 \<noteq> k2" "k1 \<noteq> k3" "k1 \<noteq> k4" "k2 \<noteq> k3" "k2 \<noteq> k4" "k3 \<noteq> k4"
    and "k1 < length u" "k2 < length u" "k3 < length u" "k4 < length u"
    and "r = (let u1 = (if c1 then u[k1 := v1] else u);
                 u2 = (if c2 then u1[k2 := v2] else u1);
                 u3 = (if c3 then u2[k3 := v3] else u2)
             in (if c4 then u3[k4 := v4] else u3))"
  shows "c1 \<longrightarrow> r ! k1 = v1" "c2 \<longrightarrow> r ! k2 = v2" "c3 \<longrightarrow> r ! k3 = v3" "c4 \<longrightarrow> r ! k4 = v4"
  using assms by (simp_all add: Let_def nth_list_update)

lemma boundary_conditions_values:
  assumes "1 \<le> x" "x \<le> nx p" "1 \<le> y" "y \<le> ny p - 2"
    and "length u = nat ((nx p + 2) * ny p)" and "ndebug \<or> x + 1 < nx p"
    and "boundary_conditions ndebug u x y p = Inr u'"
  shows "y = 1 \<longrightarrow> u' ! nat (x * ny p + (y - 1)) = 0"
    and "y = ny p - 2 \<longrightarrow> u' ! nat (x * ny p + (y + 1)) = 0"
    and "rank p = 0 \<and> x = 1 \<longrightarrow> u' ! nat ((x - 1) * ny p + y) = 1"
    and "rank p = nranks p - 1 \<and> x = nx p \<longrightarrow> u' ! nat ((x + 1) * ny p + y) = 0"
proof -
  have a: "accessible ndebug p u x (y - 1)" "accessible ndebug p u x (y + 1)"
       "accessible ndebug p u (x - 1) y" "accessible ndebug p u (x + 1) y"
    using assms by (auto intro!: accessible_region)
  note k = a [THEN accessible_nat]
  note d = offsets_distinct [OF assms(1,3,4)]
  have u': "u' = (let u1 = (if y = 1 then u[nat (x * ny p + (y - 1)) := 0] else u);
          u2 = (if y = ny p - 2 then u1[nat (x * ny p + (y + 1)) := 0] else u1);
          u3 = (if rank p = 0 \<and> x = 1 then u2[nat ((x - 1) * ny p + y) := 1] else u2)
      in (if rank p = nranks p - 1 \<and> x = nx p then u3[nat ((x + 1) * ny p + y) := 0] else u3))"
    using boundary_conditions_explicit [OF assms(1-6)] assms(7) by simp
  from four_stores [OF d(1-6) k u']
  show "y = 1 \<longrightarrow> u' ! nat (x * ny p + (y - 1)) = 0"
    and "y = ny p - 2 \<longrightarrow> u' ! nat (x * ny p + (y + 1)) = 0"
    and "rank p = 0 \<and> x = 1 \<longrightarrow> u' ! nat ((x - 1) * ny p + y) = 1"
    and "rank p = nranks p - 1 \<and> x = nx p \<longrightarrow> u' ! nat ((x + 1) * ny p + y) = 0"
    by blast+
qed

lemma four_stores_fixpoint:
  fixes u :: "'a list"
  assumes "c1 \<longrightarrow> u ! k1 = v1" "c2 \<longrightarrow> u ! k2 = v2" "c3 \<longrightarrow> u ! k3 = v3" "c4 \<longrightarrow> u ! k4 = v4"
  shows "(let u1 = (if c1 then u[k1 := v1] else u);
              u2 = (if c2 then u1[k2 := v2] else u1);
              u3 = (if c3 then u2[k3 := v3] else u2)
          in (if c4 then u3[k4 := v4] else u3)) = u"
proof -
  have "(if c1 then u[k1 := v1] else u) = u" using assms(1) by auto
  moreover have "(if c2 then u[k2 := v2] else u) = u" using assms(2) by auto
  moreover have "(if c3 then u[k3 := v3] else u) = u" using assms(3) by auto
  moreover have "(if c4 then u[k4 := v4] else u) = u" using assms(4) by auto
  ultimately show ?thesis by (simp only: Let_def)
qed

lemma boundary_conditions_fixpoint:
  assumes "1 \<le> x" "x \<le> nx p" "1 \<le> y" "y \<le> ny p - 2"
    and "length u = nat ((nx p + 2) * ny p)" and "ndebug \<or> x + 1 < nx p"
    and "boundary_conditions ndebug u x y p = Inr u'"
  shows "boundary_conditions ndebug u' x y p = Inr u'"
proof -
  have l: "length u' = nat ((nx p + 2) * ny p)"
    using boundary_conditions_length [OF assms(7)] assms(5) by simp
  note v = boundary_conditions_values [OF assms]
  show ?thesis
    unfolding boundary_conditions_explicit [OF assms(1-4) l assms(6)]
    by (simp only: four_stores_fixpoint [OF v])
qed

subsection \<open>The value the kernel stores\<close>

lemma centre_distinct:
  assumes "1 \<le> x" "1 \<le> y" "y \<le> h - 2"
  shows "nat (x * h + y) \<noteq> nat (x * h + (y - 1))"
    "nat (x * h + y) \<noteq> nat (x * h + (y + 1))"
    "nat (x * h + y) \<noteq> nat ((x - 1) * h + y)"
    "nat (x * h + y) \<noteq> nat ((x + 1) * h + y)"
proof -
  have h: "3 \<le> h" using assms by simp
  have "1 * h \<le> x * h"
    using assms h by (intro mult_right_mono) auto
  then have m: "h \<le> x * h" by simp
  have e: "(x - 1) * h = x * h - h" "(x + 1) * h = x * h + h"
    by (simp_all add: algebra_simps)
  have n: "0 \<le> x * h + y" "0 \<le> (x - 1) * h + y" "0 \<le> x * h + (y - 1)"
    "0 \<le> (x + 1) * h + y"
    unfolding e using m assms h by linarith+
  show "nat (x * h + y) \<noteq> nat (x * h + (y - 1))"
    using n by (simp add: eq_nat_nat_iff)
  have "nat (x * h + y) < nat (x * h + (y + 1))" using n by linarith
  then show "nat (x * h + y) \<noteq> nat (x * h + (y + 1))" by simp
  have "x * h + y \<noteq> (x - 1) * h + y" unfolding e using h by linarith
  then show "nat (x * h + y) \<noteq> nat ((x - 1) * h + y)"
    using n by (simp add: eq_nat_nat_iff)
  have "x * h + y \<noteq> (x + 1) * h + y" unfolding e using h by linarith
  then show "nat (x * h + y) \<noteq> nat ((x + 1) * h + y)"
    using n by (simp add: eq_nat_nat_iff)
qed

lemma four_stores_reads:
  fixes u :: "'a list"
  assumes "k1 \<noteq> k2" "k1 \<noteq> k3" "k1 \<noteq> k4" "k2 \<noteq> k3" "k2 \<noteq> k4" "k3 \<noteq> k4"
    and "k0 \<noteq> k1" "k0 \<noteq> k2" "k0 \<noteq> k3" "k0 \<noteq> k4"
    and "k1 < length u" "k2 < length u" "k3 < length u" "k4 < length u"
    and "r = (let u1 = (if c1 then u[k1 := v1] else u);
                 u2 = (if c2 then u1[k2 := v2] else u1);
                 u3 = (if c3 then u2[k3 := v3] else u2)
             in (if c4 then u3[k4 := v4] else u3))"
  shows "r ! k0 = u ! k0"
    "r ! k1 = (if c1 then v1 else u ! k1)" "r ! k2 = (if c2 then v2 else u ! k2)"
    "r ! k3 = (if c3 then v3 else u ! k3)" "r ! k4 = (if c4 then v4 else u ! k4)"
  using assms by (simp_all add: Let_def nth_list_update)

text \<open>
  C1. At every coordinate \<open>(x, y)\<close> of the evaluated regions (\<open>1 \<le> x \<le> nx\<close>,
  \<open>1 \<le> y \<le> ny - 2\<close>) and for every pair of buffers of \<open>(nx + 2) * ny\<close> cells, the kernel
  leaves the current buffer as \<open>u\<close>, which is \<open>u_old\<close> after the four conditional stores
  (\<open>0\<close> at \<open>(x, y - 1)\<close> when \<open>y = 1\<close>, \<open>0\<close> at \<open>(x, y + 1)\<close> when \<open>y = ny - 2\<close>, \<open>1\<close> at
  \<open>(x - 1, y)\<close> when \<open>rank = 0\<close> and \<open>x = 1\<close>, \<open>0\<close> at \<open>(x + 1, y)\<close> when \<open>rank = nranks - 1\<close>
  and \<open>x = nx\<close>). The five cells it reads from \<open>u\<close> are: the centre \<open>c\<close>, which is the
  cell of \<open>u_old\<close>, and the four neighbours \<open>e\<close>, \<open>w\<close>, \<open>n\<close>, \<open>s\<close>, each the stored constant
  when its condition holds and the cell of \<open>u_old\<close> otherwise. The kernel stores
  \<open>v = (1 - 4 * gamma) * c + gamma * (e + w + n + s)\<close> into the next buffer at \<open>(x, y)\<close>,
  changes no other cell of it, and returns \<open>0.5 * v\<^sup>2 * dx\<^sup>2\<close>. This holds in every build in
  which the assertions of \<open>index\<close> are not compiled, and with them for \<open>x + 1 < nx\<close>, where
  they pass.
\<close>

theorem stencil_cell:
  assumes "1 \<le> x" "x \<le> nx p" "1 \<le> y" "y \<le> ny p - 2"
    and "length u_new = nat ((nx p + 2) * ny p)"
    and "length u_old = nat ((nx p + 2) * ny p)"
    and "ndebug \<or> x + 1 < nx p"
  shows "\<exists>u1 u2 u3 u c e w n s v.
           u1 = (if y = 1 then u_old[nat (x * ny p + (y - 1)) := 0] else u_old) \<and>
           u2 = (if y = ny p - 2 then u1[nat (x * ny p + (y + 1)) := 0] else u1) \<and>
           u3 = (if rank p = 0 \<and> x = 1 then u2[nat ((x - 1) * ny p + y) := 1] else u2) \<and>
           u = (if rank p = nranks p - 1 \<and> x = nx p then u3[nat ((x + 1) * ny p + y) := 0]
                else u3) \<and>
           boundary_conditions ndebug u_old x y p = Inr u \<and>
           c = u_old ! nat (x * ny p + y) \<and>
           e = (if rank p = nranks p - 1 \<and> x = nx p then 0
                else u_old ! nat ((x + 1) * ny p + y)) \<and>
           w = (if rank p = 0 \<and> x = 1 then 1 else u_old ! nat ((x - 1) * ny p + y)) \<and>
           n = (if y = ny p - 2 then 0 else u_old ! nat (x * ny p + (y + 1))) \<and>
           s = (if y = 1 then 0 else u_old ! nat (x * ny p + (y - 1))) \<and>
           u ! nat (x * ny p + y) = c \<and> u ! nat ((x + 1) * ny p + y) = e \<and>
           u ! nat ((x - 1) * ny p + y) = w \<and> u ! nat (x * ny p + (y + 1)) = n \<and>
           u ! nat (x * ny p + (y - 1)) = s \<and>
           v = (1 - 4 * gamma p) * c + gamma p * (e + w + n + s) \<and>
           stencil ndebug u_new u_old x y p
             = Inr (u_new[nat (x * ny p + y) := v], u, 0.5 * v\<^sup>2 * (dx p)\<^sup>2) \<and>
           u_new[nat (x * ny p + y) := v] ! nat (x * ny p + y) = v"
proof -
  define u1 where "u1 = (if y = 1 then u_old[nat (x * ny p + (y - 1)) := 0] else u_old)"
  define u2 where "u2 = (if y = ny p - 2 then u1[nat (x * ny p + (y + 1)) := 0] else u1)"
  define u3 where "u3 = (if rank p = 0 \<and> x = 1 then u2[nat ((x - 1) * ny p + y) := 1] else u2)"
  define u where "u = (if rank p = nranks p - 1 \<and> x = nx p then u3[nat ((x + 1) * ny p + y) := 0]
                else u3)"
  define c where "c = u_old ! nat (x * ny p + y)"
  define e where "e = (if rank p = nranks p - 1 \<and> x = nx p then 0
                else u_old ! nat ((x + 1) * ny p + y))"
  define w where "w = (if rank p = 0 \<and> x = 1 then 1 else u_old ! nat ((x - 1) * ny p + y))"
  define n where "n = (if y = ny p - 2 then 0 else u_old ! nat (x * ny p + (y + 1)))"
  define s where "s = (if y = 1 then 0 else u_old ! nat (x * ny p + (y - 1)))"
  define v where "v = (1 - 4 * gamma p) * c + gamma p * (e + w + n + s)"
  have l: "u = (let u1 = (if y = 1 then u_old[nat (x * ny p + (y - 1)) := 0] else u_old);
          u2 = (if y = ny p - 2 then u1[nat (x * ny p + (y + 1)) := 0] else u1);
          u3 = (if rank p = 0 \<and> x = 1 then u2[nat ((x - 1) * ny p + y) := 1] else u2)
      in (if rank p = nranks p - 1 \<and> x = nx p then u3[nat ((x + 1) * ny p + y) := 0] else u3))"
    by (simp only: u_def u3_def u2_def u1_def Let_def)
  have b: "boundary_conditions ndebug u_old x y p = Inr u"
    unfolding l by (rule boundary_conditions_explicit [OF assms(1-4) assms(6) assms(7)])
  have a: "accessible ndebug p u_old x (y - 1)" "accessible ndebug p u_old x (y + 1)"
       "accessible ndebug p u_old (x - 1) y" "accessible ndebug p u_old (x + 1) y"
    using assms by (auto intro!: accessible_region)
  note k = a [THEN accessible_nat]
  note d = offsets_distinct [OF assms(1,3,4)] centre_distinct [OF assms(1,3,4)]
  note r = four_stores_reads [OF d k l]
  have rc: "u ! nat (x * ny p + y) = c" using r(1) by (simp only: c_def)
  have rs: "u ! nat (x * ny p + (y - 1)) = s" using r(2) by (simp only: s_def)
  have rn: "u ! nat (x * ny p + (y + 1)) = n" using r(3) by (simp only: n_def)
  have rw: "u ! nat ((x - 1) * ny p + y) = w" using r(4) by (simp only: w_def)
  have re: "u ! nat ((x + 1) * ny p + y) = e" using r(5) by (simp only: e_def)
  from stencil_value [OF assms] obtain u' v' where
    "boundary_conditions ndebug u_old x y p = Inr u'" and
    v': "v' = (1 - 4 * gamma p) * u' ! nat (x * ny p + y)
               + gamma p * (u' ! nat ((x + 1) * ny p + y) + u' ! nat ((x - 1) * ny p + y)
                            + u' ! nat (x * ny p + (y + 1)) + u' ! nat (x * ny p + (y - 1)))" and
    st: "stencil ndebug u_new u_old x y p
          = Inr (u_new[nat (x * ny p + y) := v'], u', 0.5 * v'\<^sup>2 * (dx p)\<^sup>2)" and
    g: "u_new[nat (x * ny p + y) := v'] ! nat (x * ny p + y) = v'"
    by blast
  then have "u' = u" using b by simp
  then have "v' = v" using v' by (simp only: rc rs rn rw re v_def)
  show ?thesis
  proof (intro exI conjI)
    show "u1 = (if y = 1 then u_old[nat (x * ny p + (y - 1)) := 0] else u_old)"
      by (fact u1_def)
    show "u2 = (if y = ny p - 2 then u1[nat (x * ny p + (y + 1)) := 0] else u1)"
      by (fact u2_def)
    show "u3 = (if rank p = 0 \<and> x = 1 then u2[nat ((x - 1) * ny p + y) := 1] else u2)"
      by (fact u3_def)
    show "u = (if rank p = nranks p - 1 \<and> x = nx p then u3[nat ((x + 1) * ny p + y) := 0]
                else u3)"
      by (fact u_def)
    show "boundary_conditions ndebug u_old x y p = Inr u" by (fact b)
    show "c = u_old ! nat (x * ny p + y)" by (fact c_def)
    show "e = (if rank p = nranks p - 1 \<and> x = nx p then 0
                else u_old ! nat ((x + 1) * ny p + y))" by (fact e_def)
    show "w = (if rank p = 0 \<and> x = 1 then 1 else u_old ! nat ((x - 1) * ny p + y))"
      by (fact w_def)
    show "n = (if y = ny p - 2 then 0 else u_old ! nat (x * ny p + (y + 1)))" by (fact n_def)
    show "s = (if y = 1 then 0 else u_old ! nat (x * ny p + (y - 1)))" by (fact s_def)
    show "u ! nat (x * ny p + y) = c" by (fact rc)
    show "u ! nat ((x + 1) * ny p + y) = e" by (fact re)
    show "u ! nat ((x - 1) * ny p + y) = w" by (fact rw)
    show "u ! nat (x * ny p + (y + 1)) = n" by (fact rn)
    show "u ! nat (x * ny p + (y - 1)) = s" by (fact rs)
    show "v = (1 - 4 * gamma p) * c + gamma p * (e + w + n + s)" by (fact v_def)
    show "stencil ndebug u_new u_old x y p
             = Inr (u_new[nat (x * ny p + y) := v], u, 0.5 * v\<^sup>2 * (dx p)\<^sup>2)"
      using st \<open>u' = u\<close> \<open>v' = v\<close> by simp
    show "u_new[nat (x * ny p + y) := v] ! nat (x * ny p + y) = v"
      using g \<open>v' = v\<close> by simp
  qed
qed

theorem stencil_cell_witness:
  "stencil True [7, 7, 7, 7, 7, 7, 7, 7, 7, 7, 7, 7] [1, 2, 3, 4, 5, 6, 7, 8, 9, 10, 11, 12] 1 1
     \<lparr>dx = 1 / 2, dt = 1 / 20, nx = 2, ny = 3, ni = 1, rank = 0, nranks = 1\<rparr>
   = Inr ([7, 7, 7, 7, 14 / 5, 7, 7, 7, 7, 7, 7, 7],
          [1, 1, 3, 0, 5, 0, 7, 8, 9, 10, 11, 12], 49 / 50) \<and>
   boundary_conditions True [1, 2, 3, 4, 5, 6, 7, 8, 9, 10, 11, 12] 1 1
     \<lparr>dx = 1 / 2, dt = 1 / 20, nx = 2, ny = 3, ni = 1, rank = 0, nranks = 1\<rparr>
   = Inr [1, 1, 3, 0, 5, 0, 7, 8, 9, 10, 11, 12]"
  using stencil_cell [of 1
      "\<lparr>dx = 1 / 2, dt = 1 / 20, nx = 2, ny = 3, ni = 1, rank = 0, nranks = 1\<rparr>" 1
      "[7, 7, 7, 7, 7, 7, 7, 7, 7, 7, 7, 7]" "[1, 2, 3, 4, 5, 6, 7, 8, 9, 10, 11, 12]" True]
  by (simp add: gamma_def alpha_def power2_eq_square)

subsection \<open>Idempotence of the boundary stores\<close>

text \<open>
  C8. The boundary stores of the kernel are idempotent. For every coordinate of the
  evaluated regions and every prior content of the two buffers, one call of the kernel
  leaves the current buffer \<open>u\<close> with the fixed values in place (\<open>0\<close> at \<open>(x, 0)\<close> when
  \<open>y = 1\<close>, \<open>0\<close> at \<open>(x, ny - 1)\<close> when \<open>y = ny - 2\<close>, \<open>1\<close> at \<open>(0, y)\<close> when \<open>rank = 0\<close> and \<open>x = 1\<close>,
  \<open>0\<close> at \<open>(nx + 1, y)\<close> when \<open>rank = nranks - 1\<close> and \<open>x = nx\<close>); applying the boundary stores
  to \<open>u\<close> again gives \<open>u\<close>, and a second call of the kernel at the same coordinate
  returns the same buffers and the same value.
\<close>

theorem boundary_stores_idempotent:
  assumes "1 \<le> x" "x \<le> nx p" "1 \<le> y" "y \<le> ny p - 2"
    and "length u_new = nat ((nx p + 2) * ny p)"
    and "length u_old = nat ((nx p + 2) * ny p)"
    and "ndebug \<or> x + 1 < nx p"
  shows "\<exists>u u' e. stencil ndebug u_new u_old x y p = Inr (u', u, e) \<and>
           (y = 1 \<longrightarrow> load_at ndebug p u x 0 = Inr 0) \<and>
           (y = ny p - 2 \<longrightarrow> load_at ndebug p u x (ny p - 1) = Inr 0) \<and>
           (rank p = 0 \<and> x = 1 \<longrightarrow> load_at ndebug p u 0 y = Inr 1) \<and>
           (rank p = nranks p - 1 \<and> x = nx p \<longrightarrow> load_at ndebug p u (nx p + 1) y = Inr 0) \<and>
           boundary_conditions ndebug u x y p = Inr u \<and>
           stencil ndebug u' u x y p = Inr (u', u, e)"
proof -
  let ?k = "nat (x * ny p + y)"
  from stencil_value [OF assms] obtain u v where
    u: "boundary_conditions ndebug u_old x y p = Inr u" and
    v: "v = (1 - 4 * gamma p) * u ! nat (x * ny p + y)
               + gamma p * (u ! nat ((x + 1) * ny p + y) + u ! nat ((x - 1) * ny p + y)
                            + u ! nat (x * ny p + (y + 1)) + u ! nat (x * ny p + (y - 1)))" and
    s: "stencil ndebug u_new u_old x y p = Inr (u_new[?k := v], u, 0.5 * v\<^sup>2 * (dx p)\<^sup>2)"
    by blast
  have l: "length u = nat ((nx p + 2) * ny p)"
    using boundary_conditions_length [OF u] assms(6) by simp
  have f: "boundary_conditions ndebug u x y p = Inr u"
    using boundary_conditions_fixpoint [OF assms(1-4) assms(6) assms(7) u] .
  have l': "length (u_new[?k := v]) = nat ((nx p + 2) * ny p)"
    using assms(5) by simp
  from stencil_value [OF assms(1-4) l' l assms(7)] f v
  have s': "stencil ndebug (u_new[?k := v]) u x y p
              = Inr (u_new[?k := v], u, 0.5 * v\<^sup>2 * (dx p)\<^sup>2)"
    by auto
  have a: "accessible ndebug p u x (y - 1)" "accessible ndebug p u x (y + 1)"
       "accessible ndebug p u (x - 1) y" "accessible ndebug p u (x + 1) y"
    using assms l by (auto intro!: accessible_region)
  note w = boundary_conditions_values [OF assms(1-4) assms(6) assms(7) u]
  have "y = 1 \<longrightarrow> load_at ndebug p u x 0 = Inr 0"
    using w(1) load_at_accessible [OF a(1)] by auto
  moreover have "y = ny p - 2 \<longrightarrow> load_at ndebug p u x (ny p - 1) = Inr 0"
    using w(2) load_at_accessible [OF a(2)] by auto
  moreover have "rank p = 0 \<and> x = 1 \<longrightarrow> load_at ndebug p u 0 y = Inr 1"
    using w(3) load_at_accessible [OF a(3)] by auto
  moreover have "rank p = nranks p - 1 \<and> x = nx p \<longrightarrow> load_at ndebug p u (nx p + 1) y = Inr 0"
    using w(4) load_at_accessible [OF a(4)] by auto
  ultimately show ?thesis
    using s s' f by blast
qed

theorem boundary_stores_idempotent_witness:
  "\<exists>u u' e.
     stencil True (replicate 12 5) (replicate 12 7) 1 1
       \<lparr>dx = 1 / 2, dt = 1 / 20, nx = 2, ny = 3, ni = 1, rank = 0, nranks = 1\<rparr> = Inr (u', u, e) \<and>
     load_at True \<lparr>dx = 1 / 2, dt = 1 / 20, nx = 2, ny = 3, ni = 1, rank = 0, nranks = 1\<rparr> u 1 0
       = Inr 0 \<and>
     load_at True \<lparr>dx = 1 / 2, dt = 1 / 20, nx = 2, ny = 3, ni = 1, rank = 0, nranks = 1\<rparr> u 1 2
       = Inr 0 \<and>
     load_at True \<lparr>dx = 1 / 2, dt = 1 / 20, nx = 2, ny = 3, ni = 1, rank = 0, nranks = 1\<rparr> u 0 1
       = Inr 1 \<and>
     boundary_conditions True u 1 1
       \<lparr>dx = 1 / 2, dt = 1 / 20, nx = 2, ny = 3, ni = 1, rank = 0, nranks = 1\<rparr> = Inr u \<and>
     stencil True u' u 1 1
       \<lparr>dx = 1 / 2, dt = 1 / 20, nx = 2, ny = 3, ni = 1, rank = 0, nranks = 1\<rparr> = Inr (u', u, e)"
  using boundary_stores_idempotent
    [of 1 "\<lparr>dx = 1 / 2, dt = 1 / 20, nx = 2, ny = 3, ni = 1, rank = 0, nranks = 1\<rparr>"
      1 "replicate 12 5" "replicate 12 7" True]
  by simp

subsection \<open>The assertions of the grid addressing\<close>

text \<open>
  With assertions, \<open>index\<close> accepts the rows \<open>0 \<le> x < nx\<close> only, and aborts on the rows
  \<open>nx\<close> and \<open>nx + 1\<close> of the buffer. Without them it is the row-major offset, which lies in
  the buffer and is injective on \<open>0 \<le> x < nx + 2\<close>, \<open>0 \<le> y < ny\<close>. The first boundary function
  calls the kernel on the row \<open>x = nx\<close>, so with assertions no pass of the time loop
  returns once \<open>ny \<ge> 3\<close>.
\<close>

lemma index_asserts:
  "index False x y p = Inr k \<longleftrightarrow> 0 \<le> x \<and> x < nx p \<and> 0 \<le> y \<and> y < ny p \<and> k = x * ny p + y"
  by (auto simp: index_def)

lemma index_halo_row_aborts:
  "nx p \<le> x \<Longrightarrow> index False x y p = Inl AssertionFailed"
  by (simp add: index_def)

lemma index_without_assertions:
  "index True x y p = Inr (x * ny p + y)"
  by (simp add: index_def)

lemma index_offset_in_buffer:
  assumes "0 \<le> x" "x < nx p + 2" "0 \<le> y" "y < ny p"
  shows "0 \<le> x * ny p + y \<and> x * ny p + y < (nx p + 2) * ny p"
  using assms by (intro combine_bound) auto

lemma index_offset_injective:
  assumes "0 \<le> y" "y < ny p" "0 \<le> y'" "y' < ny p"
    and "x * ny p + y = x' * ny p + y'"
  shows "x = x' \<and> y = y'"
proof -
  have "(x * ny p + y) div ny p = x" "(x * ny p + y) mod ny p = y"
    using assms(1,2) by simp_all
  moreover have "(x' * ny p + y') div ny p = x'" "(x' * ny p + y') mod ny p = y'"
    using assms(3,4) by simp_all
  ultimately show ?thesis
    using assms(5) by simp
qed

lemma stencil_seam_aborts:
  "stencil False u_new u_old (nx p) 1 p = Inl AssertionFailed"
  by (simp add: stencil_def boundary_conditions_def store_at_def index_halo_row_aborts)

lemma stencil_grid_seam_aborts:
  assumes "3 \<le> ny p"
  shows "stencil_grid False u_new u_old
           \<lparr>x_start = nx p, x_end = nx p + 1, y_start = 1, y_end = ny p - 1\<rparr> p
         = Inl AssertionFailed"
proof -
  have "[0..<nat (ny p - 2)] = 0 # [Suc 0..<nat (ny p - 2)]"
    using assms by (simp add: upt_conv_Cons)
  then show ?thesis
    using assms
    by (simp add: stencil_grid_def split_flat_def stencil_seam_aborts)
qed

lemma prev_boundary_aborts:
  assumes "3 \<le> ny p"
  shows "prev_boundary False msg u_new u_old p \<noteq> Inr r"
    and "rank p = 0 \<Longrightarrow> prev_boundary False msg u_new u_old p = Inl AssertionFailed"
  using assms
  by (auto simp: prev_boundary_def bnd_eq_Inr stencil_grid_seam_aborts split: if_splits)

lemma time_step_aborts:
  assumes "3 \<le> ny p"
  shows "time_step False halo u_new u_old p \<noteq> Inr r"
  using prev_boundary_aborts(1) [OF assms]
  by (auto simp: time_step_def bnd_eq_Inr)


text \<open>
  So a run with assertions returns only when it makes no pass or \<open>ny < 3\<close>, where
  the regions are empty.
\<close>

lemma time_loop_aborts:
  assumes "3 \<le> ny p" "it < nit p"
  shows "time_loop False halo p it (u_new, u_old, es, tr) \<noteq> Inr r"
proof
  assume "time_loop False halo p it (u_new, u_old, es, tr) = Inr r"
  then have "bnd (time_step False (halo it) u_new u_old p) (\<lambda>(u_new', u_old', e, t).
          time_loop False halo p (it + 1) (u_new', u_old', es @ [e], tr @ t)) = Inr r"
    using assms(2) by (subst (asm) time_loop.simps) simp
  then obtain s where "time_step False (halo it) u_new u_old p = Inr s"
    by (auto simp: bnd_eq_Inr)
  then show False
    using time_step_aborts [OF assms(1)] by blast
qed

lemma main_aborts:
  assumes "main False w halo argv = Inr r"
  shows "\<exists>p. parameters_of_args argv = Inr p \<and> (nit p \<le> 0 \<or> ny p < 3)"
proof -
  from assms obtain p0 where p0: "parameters_of_args argv = Inr p0"
    by (auto simp: main_def bnd_eq_Inr)
  define p where "p = p0\<lparr>nranks := comm_size w, rank := comm_rank w\<rparr>"
  from assms p0 obtain a b s where
    "time_loop False halo p 0 (a, b, [], []) = Inr s"
    by (auto simp: main_def bnd_eq_Inr Let_def p_def split: if_splits prod.splits)
  then have "\<not> (3 \<le> ny p \<and> 0 < nit p)"
    using time_loop_aborts [of p 0 halo a b "[]" "[]" s] by blast
  then have "nit p0 \<le> 0 \<or> ny p0 < 3"
    by (auto simp: p_def nit_def)
  then show ?thesis using p0 by blast
qed

subsection \<open>The buffers after the time loop\<close>

text \<open>
  When the loop has made at least one pass, the pair of buffers it leaves is the pair
  its last pass returned: \<open>u_old\<close> is the buffer the last region evaluation wrote,
  \<open>u_new\<close> the one it read. The block of the output file is cut from \<open>u_new\<close>. In a build
  without assertions the whole run returns for extents of at least 2 and incoming rows
  of at most \<open>ny\<close> cells.
\<close>

lemma time_step_buffers:
  assumes "time_step ndebug halo u_new u_old p = Inr (u_new', u_old', e, tr)"
  shows "\<exists>un uo e3 t3. internal ndebug un uo p = Inr (u_old', u_new', e3, t3)"
  using assms unfolding time_step_def by (auto simp: bnd_eq_Inr)

lemma time_loop_last_pass:
  assumes "time_loop ndebug halo p it (u_new, u_old, es, tr) = Inr (u_new', u_old', es', tr')"
    and "it < nit p"
  shows "\<exists>a b e t. time_step ndebug (halo (nit p - 1)) a b p = Inr (u_new', u_old', e, t)"
  using assms
proof (induction ndebug halo p it "(u_new, u_old, es, tr)" arbitrary: u_new u_old es tr
    rule: time_loop.induct)
  case (1 ndebug halo p it u_new u_old es tr)
  have "bnd (time_step ndebug (halo it) u_new u_old p) (\<lambda>(u_new', u_old', e, t).
          time_loop ndebug halo p (it + 1) (u_new', u_old', es @ [e], tr @ t))
        = Inr (u_new', u_old', es', tr')"
    using "1.prems" by (subst (asm) time_loop.simps) simp
  then obtain un uo e t where
    s: "time_step ndebug (halo it) u_new u_old p = Inr (un, uo, e, t)" and
    r: "time_loop ndebug halo p (it + 1) (un, uo, es @ [e], tr @ t)
          = Inr (u_new', u_old', es', tr')"
    by (auto simp: bnd_eq_Inr)
  show ?case
  proof (cases "it + 1 < nit p")
    case True
    from "1.hyps" [OF "1.prems"(2) r True] show ?thesis by simp
  next
    case False
    then have "it = nit p - 1" using "1.prems"(2) by simp
    moreover have "un = u_new'" "uo = u_old'"
      using r False by (simp_all add: time_loop.simps)
    ultimately show ?thesis using s by auto
  qed
qed

lemma write_output_block:
  assumes "write_output p (u_new, u_old, es, tr) = Inr r"
  shows "file_values r = take (nat (nx p * ny p)) (drop (nat (ny p)) u_new)"
    and "last_u_new r = u_new" and "last_u_old r = u_old"
    and "file_offset r = 24 + rank p * (nx p * ny p * 8)"
  using assms
  by (auto simp: write_output_def Let_def bnd_eq_Inr send_buffer_def split: if_splits)

lemma main_output_block:
  assumes "main ndebug w halo argv = Inr r"
  shows "\<exists>p0 p. parameters_of_args argv = Inr p0 \<and>
             p = p0\<lparr>nranks := comm_size w, rank := comm_rank w\<rparr> \<and>
             file_values r = take (nat (nx p * ny p)) (drop (nat (ny p)) (last_u_new r)) \<and>
             file_offset r = 24 + rank p * (nx p * ny p * 8) \<and>
             (0 < nit p \<longrightarrow>
                (\<exists>un uo e t. internal ndebug un uo p = Inr (last_u_old r, last_u_new r, e, t)))"
proof -
  from assms obtain p0 where p0: "parameters_of_args argv = Inr p0"
    by (auto simp: main_def bnd_eq_Inr)
  define p where "p = p0\<lparr>nranks := comm_size w, rank := comm_rank w\<rparr>"
  from assms p0 obtain a b u_new u_old es tr where
    l: "time_loop ndebug halo p 0 (a, b, [], []) = Inr (u_new, u_old, es, tr)" and
    o: "write_output p (u_new, u_old, es, tr) = Inr r"
    by (auto simp: main_def bnd_eq_Inr Let_def p_def split: if_splits prod.splits)
  have "\<exists>un uo e t. internal ndebug un uo p = Inr (last_u_old r, last_u_new r, e, t)"
    if "0 < nit p"
  proof -
    from time_loop_last_pass [OF l that] obtain c d e t where
      "time_step ndebug (halo (nit p - 1)) c d p = Inr (u_new, u_old, e, t)"
      by blast
    from time_step_buffers [OF this] show ?thesis
      using write_output_block(2,3) [OF o] by simp
  qed
  then show ?thesis
    using write_output_block [OF o] p0 p_def by blast
qed

lemma time_loop_returns:
  assumes "2 \<le> nx p" "2 \<le> ny p"
    and "length u_new = nat ((nx p + 2) * ny p)" "length u_old = nat ((nx p + 2) * ny p)"
    and "\<forall>k. int (length (fst (halo k))) \<le> ny p \<and> int (length (snd (halo k))) \<le> ny p"
  shows "\<exists>u_new' u_old' es' tr'.
           time_loop True halo p it (u_new, u_old, es, tr) = Inr (u_new', u_old', es', tr') \<and>
           length u_new' = nat ((nx p + 2) * ny p) \<and> length u_old' = nat ((nx p + 2) * ny p)"
  using assms
proof (induction "True" halo p it "(u_new, u_old, es, tr)" arbitrary: u_new u_old es tr
    rule: time_loop.induct)
  case (1 halo p it u_new u_old es tr)
  show ?case
  proof (cases "it < nit p")
    case True
    have h: "int (length (fst (halo it))) \<le> ny p" "int (length (snd (halo it))) \<le> ny p"
      using "1.prems"(5) by auto
    from time_step_returns [OF "1.prems"(1-4) h] obtain un uo e t where
      s: "time_step True (halo it) u_new u_old p = Inr (un, uo, e, t)" and
      l: "length un = length u_old" "length uo = length u_new"
      by blast
    have l': "length un = nat ((nx p + 2) * ny p)" "length uo = nat ((nx p + 2) * ny p)"
      using l "1.prems"(3,4) by simp_all
    from "1.hyps" [OF True "1.prems"(1,2) l' "1.prems"(5)]
    show ?thesis
      using True s by (subst time_loop.simps) simp
  next
    case False
    then show ?thesis
      using "1.prems" by (subst time_loop.simps) simp
  qed
qed

lemma main_returns:
  assumes "parameters_of_args argv = Inr p0" "thread_multiple w"
    and "2 \<le> nx p0" "2 \<le> ny p0"
    and "\<forall>k. int (length (fst (halo k))) \<le> ny p0 \<and> int (length (snd (halo k))) \<le> ny p0"
  shows "\<exists>r. main True w halo argv = Inr r"
proof -
  define p where "p = p0\<lparr>nranks := comm_size w, rank := comm_rank w\<rparr>"
  define n where "n = (nx p + 2) * ny p"
  have e: "nx p = nx p0" "ny p = ny p0" by (simp_all add: p_def)
  have n: "0 \<le> n" using assms(3,4) by (simp add: n_def e)
  have i: "initialize (replicate (nat n) 0) (replicate (nat n) 0) n
             = Inr (replicate (nat n) 0, replicate (nat n) 0)"
    using n by (simp add: initialize_def fill_n_def)
  from time_loop_returns [of p "replicate (nat n) 0" "replicate (nat n) 0" halo 0 "[]" "[]"]
  obtain u_new u_old es tr where
    l: "time_loop True halo p 0 (replicate (nat n) 0, replicate (nat n) 0, [], [])
          = Inr (u_new, u_old, es, tr)" and
    k: "length u_new = nat n"
    using assms(3-5) by (auto simp: e n_def)
  have "int (length u_new) = nx p * ny p + 2 * ny p"
    using buffer_size [of p] k assms(3,4) by (simp add: n_def e)
  moreover have "0 \<le> nx p * ny p" using assms(3,4) by (simp add: e)
  ultimately have "\<exists>row. send_buffer u_new (ny p) (nx p * ny p) = Inr row"
    using assms(4) by (intro send_buffer_returns) (simp_all add: e)
  then obtain r where "write_output p (u_new, u_old, es, tr) = Inr r"
    by (auto simp: write_output_def Let_def)
  moreover have "(nx p0 + 2) * ny p0 = n" "(nx p + 2) * ny p = n"
    by (simp_all add: n_def e)
  ultimately have "main True w halo argv = Inr r"
    using assms(1,2) n i l
    by (simp add: main_def Let_def allocate_def p_def [symmetric])
  then show ?thesis by blast
qed

subsection \<open>Runs on concrete inputs\<close>

lemmas run_defs = main_def time_loop.simps write_output_def allocate_def initialize_def fill_n_def time_step_def prev_boundary_def
  next_boundary_def internal_def stencil_grid_def stencil_def boundary_conditions_def
  load_at_def store_at_def load_def store_def index_def split_flat_def send_buffer_def
  recv_buffer_def nit_def gamma_def alpha_def

lemmas args_defs = parameters_of_args_def throwing_def stoll_def isspace_def isdigit_def
  digit_value_def usage_def

text \<open>
  C6. The grid addressing is claimed to map every coordinate with \<open>0 \<le> x < nx + 2\<close> and
  \<open>0 \<le> y < ny\<close> to an offset of the buffer. For \<open>nx = 4\<close>, \<open>ny = 6\<close> the coordinates \<open>(4, 0)\<close>
  and \<open>(5, 0)\<close> of the rows \<open>nx\<close> and \<open>nx + 1\<close> fail the assertion \<open>x < p.nx\<close> of \<open>index\<close>;
  only with the assertions compiled out does \<open>index\<close> give their offsets 24 and 30.
\<close>

theorem index_rejects_halo_row:
  "index False 4 0
     \<lparr>dx = 1 / 4, dt = 1 / 80, nx = 4, ny = 6, ni = 1, rank = 0, nranks = 1\<rparr>
     = Inl AssertionFailed \<and>
   index False 5 0
     \<lparr>dx = 1 / 4, dt = 1 / 80, nx = 4, ny = 6, ni = 1, rank = 0, nranks = 1\<rparr>
     = Inl AssertionFailed \<and>
   index True 4 0
     \<lparr>dx = 1 / 4, dt = 1 / 80, nx = 4, ny = 6, ni = 1, rank = 0, nranks = 1\<rparr>
     = Inr 24 \<and>
   index True 5 0
     \<lparr>dx = 1 / 4, dt = 1 / 80, nx = 4, ny = 6, ni = 1, rank = 0, nranks = 1\<rparr>
     = Inr 30"
  by (simp add: index_def)

text \<open>
  C3. The assertions of the grid addressing are claimed never to fail in a correct
  run. With the assertions compiled, the run on a \<open>4 \<times> 6\<close> grid with one iteration on
  one process ends in the failed assertion: the first kernel call of the first pass,
  at \<open>(nx, 1) = (4, 1)\<close>, passes \<open>x = nx\<close> to \<open>index\<close>.
\<close>

theorem assertion_fails_in_first_pass:
  "main False \<lparr>thread_multiple = True, comm_size = 1, comm_rank = 0\<rparr>
     (\<lambda>it. ([], [])) [''heat'', ''4'', ''6'', ''1''] = Inl AssertionFailed \<and>
   stencil False (replicate 36 0) (replicate 36 0) 4 1
     \<lparr>dx = 1 / 4, dt = 1 / 80, nx = 4, ny = 6, ni = 1, rank = 0, nranks = 1\<rparr>
     = Inl AssertionFailed"
  by (simp add: args_defs run_defs Let_def upt_conv_Cons)

text \<open>
  C2. The function that exchanges with the lower neighbour is claimed to evaluate the
  row \<open>x = 1\<close>, the other one the row \<open>x = nx\<close>. On the middle process of three, with
  \<open>nx = 3\<close> and \<open>ny = 3\<close>, \<open>prev_boundary\<close> sends to and receives from rank 0, fills the
  halo row \<open>x = 0\<close> and then calls the kernel on the row \<open>x = nx = 3\<close>; \<open>next_boundary\<close>
  receives from and sends to rank 2, fills the halo row \<open>x = nx + 1 = 4\<close> and then calls
  the kernel on the row \<open>x = 1\<close>. In the whole pass the cell \<open>(1, 1)\<close> gets \<open>2 / 5\<close>, one
  fifth of the halo cell \<open>(0, 1) = 2\<close> below it, but the cell \<open>(3, 1)\<close> gets \<open>0\<close>: it is
  computed before the halo cell \<open>(4, 1) = 5\<close> above it arrives.
\<close>

theorem boundary_functions_seam_rows:
  "prev_boundary True [1, 2, 3] (replicate 15 0) (replicate 15 0)
       \<lparr>dx = 1 / 3, dt = 1 / 45, nx = 3, ny = 3, ni = 1, rank = 1, nranks = 3\<rparr>
     = Inr (replicate 15 0, [1, 2, 3, 0, 0, 0, 0, 0, 0, 0, 0, 0, 0, 0, 0], 0,
            [Send 0 0 [0, 0, 0], Recv 0 1 [1, 2, 3], Kernel 3 1]) \<and>
   next_boundary True [4, 5, 6] (replicate 15 0) (replicate 15 0)
       \<lparr>dx = 1 / 3, dt = 1 / 45, nx = 3, ny = 3, ni = 1, rank = 1, nranks = 3\<rparr>
     = Inr (replicate 15 0, [0, 0, 0, 0, 0, 0, 0, 0, 0, 0, 0, 0, 4, 5, 6], 0,
            [Recv 2 0 [4, 5, 6], Send 2 1 [0, 0, 0], Kernel 1 1]) \<and>
   time_step True ([1, 2, 3], [4, 5, 6]) (replicate 15 0) (replicate 15 0)
       \<lparr>dx = 1 / 3, dt = 1 / 45, nx = 3, ny = 3, ni = 1, rank = 1, nranks = 3\<rparr>
     = Inr ([1, 2, 3, 0, 0, 0, 0, 0, 0, 0, 0, 0, 4, 5, 6],
            [0, 0, 0, 0, 2 / 5, 0, 0, 0, 0, 0, 0, 0, 0, 0, 0], 2 / 225,
            [Send 0 0 [0, 0, 0], Recv 0 1 [1, 2, 3], Kernel 3 1,
             Recv 2 0 [4, 5, 6], Send 2 1 [0, 0, 0], Kernel 1 1, Kernel 2 1])"
  by (simp add: run_defs eval_nat_numeral)

text \<open>
  C4. The block written to the file is claimed to be the field of the last iteration.
  After one iteration on a \<open>2 \<times> 3\<close> grid on one process, the field the iteration
  produced is in the buffer \<open>u_old\<close> points to after the exchange of the pointers
  (\<open>1 / 5\<close> at the cell \<open>(1, 1)\<close>); the block written is read through \<open>u_new\<close> and holds the
  field the iteration started from, all zeros.
\<close>

theorem output_is_previous_field:
  "\<exists>r. main True \<lparr>thread_multiple = True, comm_size = 1, comm_rank = 0\<rparr>
         (\<lambda>it. ([], [])) [''heat'', ''2'', ''3'', ''1''] = Inr r \<and>
       file_offset r = 24 \<and>
       file_values r = [0, 0, 0, 0, 0, 0] \<and>
       last_u_old r = [0, 0, 0, 0, 1 / 5, 0, 0, 0, 0, 0, 0, 0] \<and>
       take 6 (drop 3 (last_u_old r)) = [0, 1 / 5, 0, 0, 0, 0] \<and>
       file_values r = take 6 (drop 3 (last_u_new r))"
proof -
  have z: "replicate 12 (0::real) = [0, 0, 0, 0, 0, 0, 0, 0, 0, 0, 0, 0]"
    by (simp add: eval_nat_numeral)
  have "main True \<lparr>thread_multiple = True, comm_size = 1, comm_rank = 0\<rparr>
          (\<lambda>it. ([], [])) [''heat'', ''2'', ''3'', ''1'']
     = Inr \<lparr>file_header = Some (2, 3, 1 / 20), file_offset = 24,
        file_values = [0, 0, 0, 0, 0, 0],
        last_u_new = [0, 1, 0, 0, 0, 0, 0, 0, 0, 0, 0, 0],
        last_u_old = [0, 0, 0, 0, 1 / 5, 0, 0, 0, 0, 0, 0, 0],
        local_energy = [1 / 200], steps = [Kernel 2 1, Kernel 1 1]\<rparr>"
    by (simp add: args_defs run_defs z)
  then show ?thesis by simp
qed

subsection \<open>Parameter construction\<close>

lemma throwing_cases:
  "throwing r = (if isl r then Inl (Uncaught (projl r)) else Inr (projr r))"
  by (cases r) (simp_all add: throwing_def)

text \<open>
  C9, as the code has it. A command line whose argument count is not three positional
  values ends the process in the constructor, after the diagnostic and the usage
  line. A command line with three values of which one has no integer that \<open>stoll\<close>
  converts (or one out of range) ends the process as well, through the exception that
  nothing catches, and the program writes no usage line. A command line with three
  values that \<open>stoll\<close> converts gives the parameters, with \<open>rank = 0\<close> and \<open>nranks = 1\<close>.
  In both fatal cases \<open>main\<close> ends with the same failure before any other work.
\<close>

theorem parameters_of_args_outcomes:
  "(length argv \<noteq> 4 \<longrightarrow>
      parameters_of_args argv = Inl (Terminated (usage argv))) \<and>
   (length argv = 4 \<and>
      (isl (stoll (argv ! 1)) \<or> isl (stoll (argv ! 2)) \<or> isl (stoll (argv ! 3))) \<longrightarrow>
      (\<exists>e. parameters_of_args argv = Inl (Uncaught e))) \<and>
   (length argv = 4 \<and>
      stoll (argv ! 1) = Inr a \<and> stoll (argv ! 2) = Inr b \<and> stoll (argv ! 3) = Inr c \<longrightarrow>
      (\<exists>p. parameters_of_args argv = Inr p \<and> nx p = a \<and> ny p = b \<and> ni p = c
            \<and> rank p = 0 \<and> nranks p = 1)) \<and>
   (\<forall>f. parameters_of_args argv = Inl f \<longrightarrow> main ndebug w halo argv = Inl f)"
proof (intro conjI impI allI)
  assume "length argv \<noteq> 4"
  then show "parameters_of_args argv = Inl (Terminated (usage argv))"
    by (simp add: parameters_of_args_def)
next
  assume "length argv = 4 \<and>
      (isl (stoll (argv ! 1)) \<or> isl (stoll (argv ! 2)) \<or> isl (stoll (argv ! 3)))"
  then show "\<exists>e. parameters_of_args argv = Inl (Uncaught e)"
    by (auto simp: parameters_of_args_def throwing_cases)
next
  assume "length argv = 4 \<and>
      stoll (argv ! 1) = Inr a \<and> stoll (argv ! 2) = Inr b \<and> stoll (argv ! 3) = Inr c"
  then show "\<exists>p. parameters_of_args argv = Inr p \<and> nx p = a \<and> ny p = b \<and> ni p = c
            \<and> rank p = 0 \<and> nranks p = 1"
    by (simp add: parameters_of_args_def throwing_def Let_def)
next
  fix f
  assume "parameters_of_args argv = Inl f"
  then show "main ndebug w halo argv = Inl f"
    by (simp add: main_def)
qed

theorem parameters_of_args_outcomes_witness:
  "parameters_of_args [''heat'', ''4''] = Inl (Terminated
      [''ERROR: incorrect arguments'', ''  heat <nx> <ny> <ni>'']) \<and>
   main False \<lparr>thread_multiple = True, comm_size = 1, comm_rank = 0\<rparr> (\<lambda>it. ([], []))
      [''heat'', ''4''] = Inl (Terminated
      [''ERROR: incorrect arguments'', ''  heat <nx> <ny> <ni>'']) \<and>
   (\<exists>e. parameters_of_args [''heat'', ''4'', ''six'', ''1''] = Inl (Uncaught e)) \<and>
   (\<exists>p. parameters_of_args [''heat'', ''4'', ''6'', ''1''] = Inr p \<and> nx p = 4 \<and> ny p = 6
      \<and> ni p = 1 \<and> rank p = 0 \<and> nranks p = 1)"
proof -
  have s: "stoll ''4'' = Inr 4" "stoll ''6'' = Inr 6" "stoll ''1'' = Inr 1"
    "isl (stoll ''six'')"
    by (simp_all add: stoll_def isspace_def isdigit_def digit_value_def)
  note t = parameters_of_args_outcomes
  from t [of "[''heat'', ''4'']" 0 0 0 False
      "\<lparr>thread_multiple = True, comm_size = 1, comm_rank = 0\<rparr>" "\<lambda>it. ([], [])"]
  have "parameters_of_args [''heat'', ''4''] = Inl (Terminated
      [''ERROR: incorrect arguments'', ''  heat <nx> <ny> <ni>''])"
    "main False \<lparr>thread_multiple = True, comm_size = 1, comm_rank = 0\<rparr> (\<lambda>it. ([], []))
      [''heat'', ''4''] = Inl (Terminated
      [''ERROR: incorrect arguments'', ''  heat <nx> <ny> <ni>''])"
    by (simp_all add: usage_def)
  moreover from t [of "[''heat'', ''4'', ''six'', ''1'']"] s
  have "\<exists>e. parameters_of_args [''heat'', ''4'', ''six'', ''1''] = Inl (Uncaught e)"
    by simp
  moreover from t [of "[''heat'', ''4'', ''6'', ''1'']" 4 6 1] s
  have "\<exists>p. parameters_of_args [''heat'', ''4'', ''6'', ''1''] = Inr p \<and> nx p = 4 \<and> ny p = 6
      \<and> ni p = 1 \<and> rank p = 0 \<and> nranks p = 1"
    by simp
  ultimately show ?thesis by blast
qed

text \<open>
  C9, as stated, promises the usage message for a value that is not an integer too.
  The value \<open>abc\<close> ends the process through \<open>std::invalid_argument\<close>, without the usage
  line.
\<close>

theorem unparsable_value_without_usage:
  "parameters_of_args [''heat'', ''abc'', ''4'', ''5''] = Inl (Uncaught invalid_argument) \<and>
   parameters_of_args [''heat'', ''abc'', ''4'', ''5'']
     \<noteq> Inl (Terminated (usage [''heat'', ''abc'', ''4'', ''5'']))"
  by (simp add: args_defs)

lemma trailing_characters_accepted:
  "\<exists>p. parameters_of_args [''heat'', ''12abc'', ''4'', ''5''] = Inr p \<and> nx p = 12"
  by (simp add: args_defs)

subsection \<open>Initialisation\<close>

lemma fill_n_zeros:
  assumes "n \<le> int (length u)"
  shows "fill_n u n v = Inr (replicate (nat n) v @ drop (nat n) u)"
  using assms by (simp add: fill_n_def)

lemma fill_n_twice:
  assumes "n \<le> int (length u)"
  shows "fill_n (replicate (nat n) v @ drop (nat n) u) n v
           = Inr (replicate (nat n) v @ drop (nat n) u)"
proof -
  have "nat n \<le> length u" using assms by linarith
  then have "int (length (replicate (nat n) v @ drop (nat n) u)) = int (length u)"
    by simp
  with assms have "n \<le> int (length (replicate (nat n) v @ drop (nat n) u))" by simp
  from fill_n_zeros [OF this] show ?thesis by simp
qed

text \<open>
  C10. \<open>initialize\<close> fills the first \<open>n\<close> cells of \<open>u_new\<close> with zeros, twice, and the second
  fill changes nothing; whatever \<open>initialize\<close> returns, its second buffer is \<open>u_old\<close> as it
  was passed, so it writes nothing through that pointer. A vector of \<open>n\<close> cells is
  allocated with zeros in all its cells, and \<open>main\<close> enters the time loop with both
  buffers all zeros: \<open>u_old\<close> owes its zeros to the allocation.
\<close>

theorem initialize_writes_u_new_only:
  "(n \<le> int (length u_new) \<longrightarrow>
      fill_n u_new n 0 = Inr (replicate (nat n) 0 @ drop (nat n) u_new) \<and>
      fill_n (replicate (nat n) 0 @ drop (nat n) u_new) n 0
        = Inr (replicate (nat n) 0 @ drop (nat n) u_new) \<and>
      initialize u_new u_old n = Inr (replicate (nat n) 0 @ drop (nat n) u_new, u_old)) \<and>
   (\<forall>a b. initialize u_new u_old n = Inr (a, b) \<longrightarrow> b = u_old) \<and>
   (0 \<le> n \<longrightarrow>
      allocate n = Inr (replicate (nat n) 0) \<and>
      initialize (replicate (nat n) 0) (replicate (nat n) 0) n
        = Inr (replicate (nat n) 0, replicate (nat n) 0)) \<and>
   (thread_multiple w \<and> parameters_of_args argv = Inr p0 \<and>
    0 \<le> (nx p0 + 2) * ny p0 \<longrightarrow>
      main ndebug w halo argv =
        bnd (time_loop ndebug halo (p0\<lparr>nranks := comm_size w, rank := comm_rank w\<rparr>) 0
               (replicate (nat ((nx p0 + 2) * ny p0)) 0,
                replicate (nat ((nx p0 + 2) * ny p0)) 0, [], []))
            (write_output (p0\<lparr>nranks := comm_size w, rank := comm_rank w\<rparr>)))"
proof (intro conjI impI allI)
  assume n: "n \<le> int (length u_new)"
  show "fill_n u_new n 0 = Inr (replicate (nat n) 0 @ drop (nat n) u_new)"
    using n by (rule fill_n_zeros)
  show "fill_n (replicate (nat n) 0 @ drop (nat n) u_new) n 0
        = Inr (replicate (nat n) 0 @ drop (nat n) u_new)"
    using n by (rule fill_n_twice)
  show "initialize u_new u_old n = Inr (replicate (nat n) 0 @ drop (nat n) u_new, u_old)"
    by (simp add: initialize_def fill_n_zeros [OF n] fill_n_twice [OF n])
next
  fix a b
  assume "initialize u_new u_old n = Inr (a, b)"
  then show "b = u_old"
    by (auto simp: initialize_def bnd_eq_Inr)
next
  assume n: "0 \<le> n"
  show "allocate n = Inr (replicate (nat n) 0)"
    using n by (simp add: allocate_def)
  have "n \<le> int (length (replicate (nat n) (0::real)))" using n by simp
  then show "initialize (replicate (nat n) 0) (replicate (nat n) 0) n
        = Inr (replicate (nat n) 0, replicate (nat n) 0)"
    by (simp add: initialize_def fill_n_def)
next
  assume a: "thread_multiple w \<and> parameters_of_args argv = Inr p0 \<and>
    0 \<le> (nx p0 + 2) * ny p0"
  then have "(nx p0 + 2) * ny p0
      \<le> int (length (replicate (nat ((nx p0 + 2) * ny p0)) (0::real)))"
    by simp
  then show "main ndebug w halo argv =
        bnd (time_loop ndebug halo (p0\<lparr>nranks := comm_size w, rank := comm_rank w\<rparr>) 0
               (replicate (nat ((nx p0 + 2) * ny p0)) 0,
                replicate (nat ((nx p0 + 2) * ny p0)) 0, [], []))
            (write_output (p0\<lparr>nranks := comm_size w, rank := comm_rank w\<rparr>))"
    using a by (simp add: main_def allocate_def initialize_def fill_n_def Let_def)
qed

theorem initialize_writes_u_new_only_witness:
  "initialize [1, 2, 3] [4, 5, 6] 3 = Inr ([0, 0, 0], [4, 5, 6]) \<and>
   allocate 3 = Inr [0, 0, 0] \<and>
   initialize [0, 0, 0] [0, 0, 0] 3 = Inr ([0, 0, 0], [0, 0, 0]) \<and>
   main True \<lparr>thread_multiple = True, comm_size = 1, comm_rank = 0\<rparr> (\<lambda>it. ([], [])) [''heat'', ''2'', ''3'', ''1''] =
     bnd (time_loop True (\<lambda>it. ([], [])) \<lparr>dx = 1 / 2, dt = 1 / 20, nx = 2, ny = 3, ni = 1, rank = 0, nranks = 1\<rparr> 0
            ([0, 0, 0, 0, 0, 0, 0, 0, 0, 0, 0, 0], [0, 0, 0, 0, 0, 0, 0, 0, 0, 0, 0, 0], [], []))
         (write_output \<lparr>dx = 1 / 2, dt = 1 / 20, nx = 2, ny = 3, ni = 1, rank = 0, nranks = 1\<rparr>)"
proof -
  have a: "parameters_of_args [''heat'', ''2'', ''3'', ''1''] = Inr \<lparr>dx = 1 / 2, dt = 1 / 20, nx = 2, ny = 3, ni = 1, rank = 0, nranks = 1\<rparr>"
    by (simp add: args_defs alpha_def)
  have z: "replicate 12 (0::real) = [0, 0, 0, 0, 0, 0, 0, 0, 0, 0, 0, 0]"
    "replicate 3 (0::real) = [0, 0, 0]"
    by (simp_all add: eval_nat_numeral)
  from initialize_writes_u_new_only
    [of 3 "[1, 2, 3]" "[4, 5, 6]" "\<lparr>thread_multiple = True, comm_size = 1, comm_rank = 0\<rparr>"
      "[''heat'', ''2'', ''3'', ''1'']"
      "\<lparr>dx = 1 / 2, dt = 1 / 20, nx = 2, ny = 3, ni = 1, rank = 0, nranks = 1\<rparr>" True "\<lambda>it. ([], [])"]
  show ?thesis
    by (simp add: a z)
qed

end
